theory Spec2Isabelle
  imports Main "HOL-Library.Sublist"
begin

section \<open>The database seen by the reconciliation routine\<close>

text \<open>
  The routine \<^verbatim>\<open>migrateWorkspaceUserEmail\<close> talks to a PostgreSQL database through
  \<^verbatim>\<open>db.execute\<close>. It reads the table \<^verbatim>\<open>user\<close> (columns \<^verbatim>\<open>id\<close>, \<^verbatim>\<open>email\<close>) and reads and
  writes the table \<^verbatim>\<open>workspace_member\<close> (columns \<^verbatim>\<open>user_email\<close>, \<^verbatim>\<open>user_id\<close>, and others it
  never names). A SQL \<^verbatim>\<open>NULL\<close> is \<open>None\<close>; the empty string is \<open>Some ''''\<close>.

  The schema declarations are not part of the source file. \<^verbatim>\<open>user.id\<close> is the primary key
  of its table and so is never \<^verbatim>\<open>NULL\<close>; \<^verbatim>\<open>user.email\<close> is kept nullable here, and nothing
  is assumed about its uniqueness.
\<close>

record user =
  u_id :: string
  u_email :: "string option"

text \<open>
  A row of \<^verbatim>\<open>workspace_member\<close>. \<open>row_id\<close> stands for the identity of the stored tuple
  (its primary key); \<open>other_columns\<close> holds the columns the routine never mentions.
\<close>

record workspace_member_row =
  row_id :: nat
  other_columns :: "(string \<times> string) list"
  user_email :: "string option"
  user_id :: "string option"

text \<open>
  The statements name the table as \<^verbatim>\<open>"workspace_member"\<close>, without a schema: they act on
  the one table of that name that the connection resolves, which is taken to exist. The two
  flags say which of the two columns that table has; the value a row carries for an absent
  column is never read.

  The two probes of \<^verbatim>\<open>information_schema.columns\<close> select on \<^verbatim>\<open>table_name\<close> and
  \<^verbatim>\<open>column_name\<close> only, with no condition on \<^verbatim>\<open>table_schema\<close>. They therefore also see
  the tables named \<^verbatim>\<open>workspace_member\<close> in the other schemas of the database;
  \<open>other_user_email\<close> and \<open>other_user_id\<close> count those of them that have the column.
\<close>

record database =
  has_user_email :: bool
  has_user_id :: bool
  other_user_email :: nat
  other_user_id :: nat
  user_table :: "user list"
  workspace_member :: "workspace_member_row list"

datatype db_error =
    ExternalError string
  | UndefinedColumn string
  | CardinalityViolation

section \<open>The SQL statements of the routine\<close>

text \<open>One constructor for each \<^verbatim>\<open>db.execute\<close> call of the source, in source order.\<close>

datatype stmt =
    SelectUserEmailColumn
  | AddUserIdColumn
  | UpdateUserId
  | CountOrphaned
  | DeleteOrphaned
  | CountNull
  | DeleteNull
  | CountNullUserIds
  | DeleteNullUserIds

text \<open>The three \<^verbatim>\<open>WHERE\<close> clauses.\<close>

definition orphaned :: "workspace_member_row \<Rightarrow> bool" where
  \<comment> \<open>\<^verbatim>\<open>"user_id" IS NULL AND "user_email" IS NOT NULL\<close>\<close>
  "orphaned r = (user_id r = None \<and> user_email r \<noteq> None)"

definition unidentified :: "workspace_member_row \<Rightarrow> bool" where
  \<comment> \<open>\<^verbatim>\<open>"user_id" IS NULL AND ("user_email" IS NULL OR "user_email" = '')\<close>\<close>
  "unidentified r = (user_id r = None \<and> (user_email r = None \<or> user_email r = Some ''''))"

definition null_user_id :: "workspace_member_row \<Rightarrow> bool" where
  \<comment> \<open>\<^verbatim>\<open>"user_id" IS NULL\<close>\<close>
  "null_user_id r = (user_id r = None)"

text \<open>
  The scalar subquery \<^verbatim>\<open>(SELECT u.id FROM "user" u WHERE u.email = "workspace_member"."user_email")\<close>:
  no matching user gives \<^verbatim>\<open>NULL\<close>, one gives its id, and more than one makes PostgreSQL
  raise ``more than one row returned by a subquery used as an expression''. A \<^verbatim>\<open>NULL\<close>
  on either side of \<^verbatim>\<open>=\<close> matches nothing.
\<close>

definition select_user_id :: "user list \<Rightarrow> string option \<Rightarrow> db_error + string option" where
  "select_user_id us em =
     (case filter (\<lambda>u. em \<noteq> None \<and> u_email u = em) us of
        [] \<Rightarrow> Inr None
      | [u] \<Rightarrow> Inr (Some (u_id u))
      | _ \<Rightarrow> Inl CardinalityViolation)"

text \<open>
  The \<^verbatim>\<open>UPDATE\<close> visits every row; a row satisfying the \<^verbatim>\<open>WHERE\<close> clause gets the
  subquery's value. An error on any row aborts the whole statement.
\<close>

fun update_rows :: "user list \<Rightarrow> workspace_member_row list \<Rightarrow> db_error + workspace_member_row list" where
  "update_rows us [] = Inr []"
| "update_rows us (r # rs) =
     (if orphaned r then
        (case select_user_id us (user_email r) of
           Inl e \<Rightarrow> Inl e
         | Inr v \<Rightarrow>
            (case update_rows us rs of
               Inl e \<Rightarrow> Inl e
             | Inr rs' \<Rightarrow> Inr (r\<lparr>user_id := v\<rparr> # rs')))
      else
        (case update_rows us rs of
           Inl e \<Rightarrow> Inl e
         | Inr rs' \<Rightarrow> Inr (r # rs')))"

text \<open>
  A statement naming a column the table does not have is rejected by PostgreSQL. The flag
  says whether the statement names \<^verbatim>\<open>user_email\<close>; all of them name \<^verbatim>\<open>user_id\<close>.
\<close>

definition missing_column :: "bool \<Rightarrow> database \<Rightarrow> db_error option" where
  "missing_column names_email d =
     (if \<not> has_user_id d then Some (UndefinedColumn ''user_id'')
      else if names_email \<and> \<not> has_user_email d then Some (UndefinedColumn ''user_email'')
      else None)"

definition sql_count ::
  "bool \<Rightarrow> (workspace_member_row \<Rightarrow> bool) \<Rightarrow> database \<Rightarrow> db_error + database \<times> nat" where
  "sql_count names_email P d =
     (case missing_column names_email d of
        Some e \<Rightarrow> Inl e
      | None \<Rightarrow> Inr (d, length (filter P (workspace_member d))))"

definition sql_delete ::
  "bool \<Rightarrow> (workspace_member_row \<Rightarrow> bool) \<Rightarrow> database \<Rightarrow> db_error + database \<times> nat" where
  "sql_delete names_email P d =
     (case missing_column names_email d of
        Some e \<Rightarrow> Inl e
      | None \<Rightarrow>
          Inr (d\<lparr>workspace_member := filter (\<lambda>r. \<not> P r) (workspace_member d)\<rparr>,
               length (filter P (workspace_member d))))"

text \<open>
  The rows of \<^verbatim>\<open>information_schema.columns\<close> with \<^verbatim>\<open>table_name = 'workspace_member'\<close> and
  the given \<^verbatim>\<open>column_name\<close>: one for each table of that name, in any schema, that has the
  column.
\<close>

definition probe_user_email :: "database \<Rightarrow> nat" where
  "probe_user_email d = (if has_user_email d then 1 else 0) + other_user_email d"

definition probe_user_id :: "database \<Rightarrow> nat" where
  "probe_user_id d = (if has_user_id d then 1 else 0) + other_user_id d"

text \<open>
  What each statement does to the database, and the number it yields: the number of rows
  returned by the column probe, the value of \<^verbatim>\<open>COUNT(*)\<close>, the number of rows an
  \<^verbatim>\<open>UPDATE\<close> or \<^verbatim>\<open>DELETE\<close> matched, and for the \<^verbatim>\<open>DO\<close> block the number of columns it added.
  The \<^verbatim>\<open>DO\<close> block alters the table when its probe (\<^verbatim>\<open>IF NOT EXISTS\<close>) finds no \<^verbatim>\<open>user_id\<close>
  column on any table of that name; the table itself then has none, so the statement is
  accepted. \<^verbatim>\<open>ALTER TABLE ... ADD COLUMN "user_id" text\<close> gives every existing row a \<^verbatim>\<open>NULL\<close>.
\<close>

definition add_user_id_column :: "database \<Rightarrow> database" where
  "add_user_id_column d =
     d\<lparr>has_user_id := True,
       workspace_member := map (\<lambda>r. r\<lparr>user_id := None\<rparr>) (workspace_member d)\<rparr>"

fun exec_stmt :: "stmt \<Rightarrow> database \<Rightarrow> db_error + database \<times> nat" where
  "exec_stmt SelectUserEmailColumn d = Inr (d, probe_user_email d)"
| "exec_stmt AddUserIdColumn d =
     (if 0 < probe_user_id d then Inr (d, 0) else Inr (add_user_id_column d, 1))"
| "exec_stmt UpdateUserId d =
     (case missing_column True d of
        Some e \<Rightarrow> Inl e
      | None \<Rightarrow>
         (case update_rows (user_table d) (workspace_member d) of
            Inl e \<Rightarrow> Inl e
          | Inr rs \<Rightarrow> Inr (d\<lparr>workspace_member := rs\<rparr>, length (filter orphaned (workspace_member d)))))"
| "exec_stmt CountOrphaned d = sql_count True orphaned d"
| "exec_stmt DeleteOrphaned d = sql_delete True orphaned d"
| "exec_stmt CountNull d = sql_count True unidentified d"
| "exec_stmt DeleteNull d = sql_delete True unidentified d"
| "exec_stmt CountNullUserIds d = sql_count False null_user_id d"
| "exec_stmt DeleteNullUserIds d = sql_delete False null_user_id d"

section \<open>Running the routine\<close>

text \<open>The lines the routine writes to the console, with the numbers they interpolate.\<close>

datatype log_entry =
    LogChecking
  | LogFoundColumn
  | LogOrphaned nat
  | LogNullRecords nat
  | LogMigrated
  | LogNullUserIds nat
  | LogRemoved
  | LogCompleted
  | LogError db_error

text \<open>
  Everything the routine does is recorded in order: a console line, or a statement sent to
  the database, with the database state it was sent to and its outcome.
\<close>

datatype event = Log log_entry | Exec stmt database "db_error + nat"

record world =
  db :: database
  events :: "event list"

text \<open>The statements sent to the database, in order.\<close>

fun stmts_of :: "event list \<Rightarrow> stmt list" where
  "stmts_of [] = []"
| "stmts_of (Log m # evs) = stmts_of evs"
| "stmts_of (Exec s d r # evs) = s # stmts_of evs"

definition console_log :: "log_entry \<Rightarrow> world \<Rightarrow> world \<times> (db_error + unit)" where
  "console_log m w = (w\<lparr>events := events w @ [Log m]\<rparr>, Inr ())"

text \<open>
  \<^verbatim>\<open>await db.execute(...)\<close>. Besides the errors that follow from the database state, any
  statement can fail for a reason outside it (connection, permission); \<open>faults s\<close> is that
  error for statement \<open>s\<close>, if any. A statement is atomic: one that raises changes nothing.
\<close>

definition db_execute :: "(stmt \<Rightarrow> db_error option) \<Rightarrow> stmt \<Rightarrow> world \<Rightarrow> world \<times> (db_error + nat)" where
  "db_execute faults s w =
     (case (case faults s of Some e \<Rightarrow> Inl e | None \<Rightarrow> exec_stmt s (db w)) of
        Inl e \<Rightarrow> (w\<lparr>events := events w @ [Exec s (db w) (Inl e)]\<rparr>, Inl e)
      | Inr (d', n) \<Rightarrow> (w\<lparr>db := d', events := events w @ [Exec s (db w) (Inr n)]\<rparr>, Inr n))"

text \<open>Sequencing inside the \<^verbatim>\<open>try\<close> block: a raised error skips everything after it.\<close>

definition and_then ::
  "(world \<Rightarrow> world \<times> (db_error + 'a)) \<Rightarrow> ('a \<Rightarrow> world \<Rightarrow> world \<times> (db_error + 'b)) \<Rightarrow>
   world \<Rightarrow> world \<times> (db_error + 'b)" where
  "and_then m k w = (case m w of (w', Inl e) \<Rightarrow> (w', Inl e) | (w', Inr a) \<Rightarrow> k a w')"

definition skip :: "world \<Rightarrow> world \<times> (db_error + unit)" where
  "skip w = (w, Inr ())"

text \<open>
  \<^verbatim>\<open>rows[0]?.count && Number(rows[0].count) > 0\<close>: whether the driver hands the count over
  as a number or as a decimal string, the test holds exactly when the count is positive.
\<close>

definition count_positive :: "nat \<Rightarrow> bool" where
  "count_positive n = (0 < n)"

definition remove_orphaned :: "(stmt \<Rightarrow> db_error option) \<Rightarrow> world \<Rightarrow> world \<times> (db_error + unit)" where
  "remove_orphaned faults =
     and_then (db_execute faults CountOrphaned) (\<lambda>n.
       if count_positive n then
         and_then (console_log (LogOrphaned n)) (\<lambda>_.
         and_then (db_execute faults DeleteOrphaned) (\<lambda>_. skip))
       else skip)"

definition remove_null :: "(stmt \<Rightarrow> db_error option) \<Rightarrow> world \<Rightarrow> world \<times> (db_error + unit)" where
  "remove_null faults =
     and_then (db_execute faults CountNull) (\<lambda>n.
       if count_positive n then
         and_then (console_log (LogNullRecords n)) (\<lambda>_.
         and_then (db_execute faults DeleteNull) (\<lambda>_. skip))
       else skip)"

definition remove_null_user_ids :: "(stmt \<Rightarrow> db_error option) \<Rightarrow> world \<Rightarrow> world \<times> (db_error + unit)" where
  "remove_null_user_ids faults =
     and_then (db_execute faults CountNullUserIds) (\<lambda>n.
       if count_positive n then
         and_then (console_log (LogNullUserIds n)) (\<lambda>_.
         and_then (db_execute faults DeleteNullUserIds) (\<lambda>_.
         console_log LogRemoved))
       else skip)"

definition legacy_branch :: "(stmt \<Rightarrow> db_error option) \<Rightarrow> world \<Rightarrow> world \<times> (db_error + unit)" where
  "legacy_branch faults =
     and_then (console_log LogFoundColumn) (\<lambda>_.
     and_then (db_execute faults AddUserIdColumn) (\<lambda>_.
     and_then (db_execute faults UpdateUserId) (\<lambda>_.
     and_then (remove_orphaned faults) (\<lambda>_.
     and_then (remove_null faults) (\<lambda>_.
     console_log LogMigrated)))))"

definition try_block :: "(stmt \<Rightarrow> db_error option) \<Rightarrow> world \<Rightarrow> world \<times> (db_error + unit)" where
  "try_block faults =
     and_then (db_execute faults SelectUserEmailColumn) (\<lambda>hasUserEmailColumn.
     and_then (if 0 < hasUserEmailColumn then legacy_branch faults else skip) (\<lambda>_.
     and_then (remove_null_user_ids faults) (\<lambda>_.
     console_log LogCompleted)))"

text \<open>
  The routine: the opening console line, the \<^verbatim>\<open>try\<close> block, and the \<^verbatim>\<open>catch\<close> that logs
  the error and throws it again. \<open>Inr ()\<close> is the normal return, \<open>Inl e\<close> the error thrown
  to the caller.
\<close>

definition migrateWorkspaceUserEmail ::
  "(stmt \<Rightarrow> db_error option) \<Rightarrow> database \<Rightarrow> world \<times> (db_error + unit)" where
  "migrateWorkspaceUserEmail faults d =
     (case and_then (console_log LogChecking) (\<lambda>_. try_block faults) \<lparr>db = d, events = []\<rparr> of
        (w, Inl error) \<Rightarrow> (w\<lparr>events := events w @ [Log (LogError error)]\<rparr>, Inl error)
      | (w, Inr u) \<Rightarrow> (w, Inr u))"

definition no_faults :: "stmt \<Rightarrow> db_error option" where
  "no_faults s = None"

section \<open>The priority selector widget\<close>

text \<open>
  A task as the widget sees it: its \<^verbatim>\<open>priority\<close> field and the attributes the widget
  copies without looking at them.
\<close>

record task =
  priority :: string
  other_attributes :: "(string \<times> string) list"

text \<open>The fixed list \<^verbatim>\<open>priorityOptions\<close> of \<^verbatim>\<open>{ value, label }\<close> objects.\<close>

record priority_option =
  opt_value :: string
  opt_label :: string

definition priorityOptions :: "priority_option list" where
  "priorityOptions =
     [\<lparr>opt_value = ''no-priority'', opt_label = ''No Priority''\<rparr>,
      \<lparr>opt_value = ''low'', opt_label = ''Low''\<rparr>,
      \<lparr>opt_value = ''medium'', opt_label = ''Medium''\<rparr>,
      \<lparr>opt_value = ''high'', opt_label = ''High''\<rparr>,
      \<lparr>opt_value = ''urgent'', opt_label = ''Urgent''\<rparr>]"

text \<open>
  One rendered button for each option: the value its click handler passes on, its label,
  and whether the \<^verbatim>\<open>Check\<close> icon is rendered (\<^verbatim>\<open>task.priority === priority.value\<close>).
\<close>

record rendered_button =
  on_click :: string
  button_label :: string
  check_shown :: bool

definition render_buttons :: "task \<Rightarrow> rendered_button list" where
  "render_buttons t =
     map (\<lambda>p. \<lparr>on_click = opt_value p, button_label = opt_label p,
               check_shown = (priority t = opt_value p)\<rparr>) priorityOptions"

text \<open>
  What a rejected promise carries: an \<^verbatim>\<open>Error\<close> instance with its message, or any other
  thrown value.
\<close>

datatype thrown = ErrorInstance string | OtherValue

text \<open>
  The component's local state \<^verbatim>\<open>open\<close>, with the calls made to the two collaborators:
  the arguments given to \<^verbatim>\<open>updateTask\<close> and the messages given to \<^verbatim>\<open>toast.error\<close>.
\<close>

record widget =
  popover_open :: bool
  update_calls :: "task list"
  toasts :: "string list"

text \<open>
  \<^verbatim>\<open>handlePriorityChange\<close>. The mutation is a parameter: \<open>Inr ()\<close> when the promise
  resolves, \<open>Inl x\<close> when it rejects with \<open>x\<close>.
\<close>

definition handlePriorityChange ::
  "(task \<Rightarrow> thrown + unit) \<Rightarrow> task \<Rightarrow> string \<Rightarrow> widget \<Rightarrow> widget" where
  "handlePriorityChange updateTask t newPriority st =
     (let arg = t\<lparr>priority := newPriority\<rparr>;
          st1 = st\<lparr>update_calls := update_calls st @ [arg]\<rparr>
      in case updateTask arg of
           Inr _ \<Rightarrow> st1\<lparr>popover_open := False\<rparr>
         | Inl error \<Rightarrow>
             st1\<lparr>toasts := toasts st1 @
                    [case error of
                       ErrorInstance message \<Rightarrow> message
                     | OtherValue \<Rightarrow> ''Failed to update task priority'']\<rparr>)"

section \<open>Notions used in the proofs\<close>

text \<open>The database as the \<^verbatim>\<open>DO\<close> block leaves it.\<close>

definition after_add :: "database \<Rightarrow> database" where
  "after_add d = (if 0 < probe_user_id d then d else add_user_id_column d)"

text \<open>What a successful \<^verbatim>\<open>UPDATE\<close> makes of one row.\<close>

definition resolved :: "user list \<Rightarrow> workspace_member_row \<Rightarrow> workspace_member_row" where
  "resolved us r =
     (if orphaned r then
        r\<lparr>user_id := (case select_user_id us (user_email r) of Inr v \<Rightarrow> v | Inl e \<Rightarrow> None)\<rparr>
      else r)"

text \<open>The database after the \<^verbatim>\<open>UPDATE\<close>, after the first and after the second \<^verbatim>\<open>DELETE\<close>
  of a run through the legacy branch in which no statement raises.\<close>

definition after_update :: "database \<Rightarrow> database" where
  "after_update d =
     (after_add d)\<lparr>workspace_member :=
        map (resolved (user_table d)) (workspace_member (after_add d))\<rparr>"

definition after_orphaned :: "database \<Rightarrow> database" where
  "after_orphaned d =
     (after_update d)\<lparr>workspace_member :=
        filter (\<lambda>r. \<not> orphaned r) (workspace_member (after_update d))\<rparr>"

definition after_null :: "database \<Rightarrow> database" where
  "after_null d =
     (after_orphaned d)\<lparr>workspace_member :=
        filter (\<lambda>r. \<not> unidentified r) (workspace_member (after_orphaned d))\<rparr>"

text \<open>The events of a count followed, when the count is positive, by its report and its
  \<^verbatim>\<open>DELETE\<close>; and the events of the legacy branch when no statement raises.\<close>

definition sweep_events ::
  "stmt \<Rightarrow> stmt \<Rightarrow> (nat \<Rightarrow> log_entry) \<Rightarrow> (workspace_member_row \<Rightarrow> bool) \<Rightarrow> database \<Rightarrow>
   event list" where
  "sweep_events cnt del mk P d =
     Exec cnt d (Inr (length (filter P (workspace_member d)))) #
     (if 0 < length (filter P (workspace_member d))
      then [Log (mk (length (filter P (workspace_member d)))),
            Exec del d (Inr (length (filter P (workspace_member d))))]
      else [])"

definition legacy_events :: "database \<Rightarrow> event list" where
  "legacy_events d =
     [Log LogFoundColumn,
      Exec AddUserIdColumn d (Inr (if 0 < probe_user_id d then 0 else 1)),
      Exec UpdateUserId (after_add d)
        (Inr (length (filter orphaned (workspace_member (after_add d)))))] @
     sweep_events CountOrphaned DeleteOrphaned LogOrphaned orphaned (after_update d) @
     sweep_events CountNull DeleteNull LogNullRecords unidentified (after_orphaned d) @
     [Log LogMigrated]"

text \<open>A property of the world that a piece of the routine maintains, whatever its outcome.\<close>

definition preserves :: "(world \<Rightarrow> bool) \<Rightarrow> (world \<Rightarrow> world \<times> 'r) \<Rightarrow> bool" where
  "preserves I m = (\<forall>w. I w \<longrightarrow> I (fst (m w)))"

text \<open>
  A piece of the routine started in a world satisfying \<open>P\<close> ends in one satisfying \<open>Q\<close> when
  it returns and in one satisfying \<open>E\<close> when it throws.
\<close>

definition hoare ::
  "(world \<Rightarrow> bool) \<Rightarrow> (world \<Rightarrow> world \<times> (db_error + 'a)) \<Rightarrow> ('a \<Rightarrow> world \<Rightarrow> bool) \<Rightarrow>
   (db_error \<Rightarrow> world \<Rightarrow> bool) \<Rightarrow> bool" where
  "hoare P m Q E =
     (\<forall>w. P w \<longrightarrow> (case m w of (w', Inr a) \<Rightarrow> Q a w' | (w', Inl e) \<Rightarrow> E e w'))"

text \<open>An event that records a statement raising an error.\<close>

fun raised :: "event \<Rightarrow> bool" where
  "raised (Exec s d (Inl e)) = True"
| "raised _ = False"

text \<open>An event that records a statement which left the database \<open>d\<close> as it was.\<close>

fun quiet :: "database \<Rightarrow> event \<Rightarrow> bool" where
  "quiet d (Log m) = True"
| "quiet d (Exec s d' (Inl e)) = (d' = d)"
| "quiet d (Exec s d' (Inr n)) = (d' = d \<and> exec_stmt s d = Inr (d, n))"

text \<open>A world whose database is \<open>d\<close> and whose statements so far all left \<open>d\<close> as it was.\<close>

definition settled :: "database \<Rightarrow> world \<Rightarrow> bool" where
  "settled d w = (db w = d \<and> (\<forall>ev \<in> set (events w). quiet d ev))"

section \<open>Example data\<close>

definition alice :: user where
  "alice = \<lparr>u_id = ''u1'', u_email = Some ''alice@example.com''\<rparr>"

definition nobody :: user where
  "nobody = \<lparr>u_id = ''u0'', u_email = Some ''''\<rparr>"

definition m_alice :: workspace_member_row where
  "m_alice = \<lparr>row_id = 1, other_columns = [(''role'', ''owner'')],
               user_email = Some ''alice@example.com'', user_id = None\<rparr>"

definition m_ghost :: workspace_member_row where
  "m_ghost = \<lparr>row_id = 2, other_columns = [(''role'', ''member'')],
               user_email = Some ''ghost@example.com'', user_id = None\<rparr>"

definition m_null :: workspace_member_row where
  "m_null = \<lparr>row_id = 3, other_columns = [(''role'', ''member'')],
              user_email = None, user_id = None\<rparr>"

definition m_empty :: workspace_member_row where
  "m_empty = \<lparr>row_id = 4, other_columns = [(''role'', ''member'')],
               user_email = Some '''', user_id = None\<rparr>"

definition m_bob :: workspace_member_row where
  "m_bob = \<lparr>row_id = 5, other_columns = [(''role'', ''member'')],
             user_email = Some ''bob@example.com'', user_id = Some ''u7''\<rparr>"

definition legacy_db :: database where
  "legacy_db = \<lparr>has_user_email = True, has_user_id = True, other_user_email = 0,
                 other_user_id = 0, user_table = [alice],
                 workspace_member = [m_alice, m_ghost, m_null, m_empty, m_bob]\<rparr>"

definition migrated_db :: database where
  "migrated_db = \<lparr>has_user_email = False, has_user_id = True, other_user_email = 0,
                   other_user_id = 0, user_table = [alice],
                   workspace_member = [m_null, m_bob]\<rparr>"

definition empty_email_db :: "user list \<Rightarrow> database" where
  "empty_email_db us = \<lparr>has_user_email = True, has_user_id = True, other_user_email = 0,
                         other_user_id = 0, user_table = us,
                         workspace_member = [m_empty]\<rparr>"

text \<open>
  Two databases in which a second schema holds a table \<^verbatim>\<open>workspace_member\<close> still in the
  legacy shape (with \<^verbatim>\<open>user_email\<close>, without \<^verbatim>\<open>user_id\<close>), while the table the statements act
  on has no \<^verbatim>\<open>user_email\<close> column: in the first it has no \<^verbatim>\<open>user_id\<close> column either, in the
  second it is the migrated table.
\<close>

definition shadowed_bare_db :: database where
  "shadowed_bare_db = \<lparr>has_user_email = False, has_user_id = False, other_user_email = 1,
                        other_user_id = 0, user_table = [alice],
                        workspace_member = [m_null]\<rparr>"

definition shadowed_migrated_db :: database where
  "shadowed_migrated_db = migrated_db\<lparr>other_user_email := 1\<rparr>"

definition connection_lost :: "stmt \<Rightarrow> stmt \<Rightarrow> db_error option" where
  "connection_lost s = no_faults(s := Some (ExternalError ''connection terminated''))"

definition low_task :: task where
  "low_task = \<lparr>priority = ''low'', other_attributes = [(''title'', ''Write the report'')]\<rparr>"

definition open_widget :: widget where
  "open_widget = \<lparr>popover_open = True, update_calls = [], toasts = []\<rparr>"

definition resolves :: "task \<Rightarrow> thrown + unit" where
  "resolves t = Inr ()"

definition rejects :: "thrown \<Rightarrow> task \<Rightarrow> thrown + unit" where
  "rejects x t = Inl x"

section \<open>Auxiliary facts\<close>

lemmas run_defs = migrateWorkspaceUserEmail_def try_block_def legacy_branch_def
  remove_orphaned_def remove_null_def remove_null_user_ids_def and_then_def db_execute_def
  console_log_def skip_def count_positive_def no_faults_def sql_count_def sql_delete_def
  missing_column_def select_user_id_def orphaned_def unidentified_def null_user_id_def
  add_user_id_column_def probe_user_email_def probe_user_id_def

lemmas example_defs = alice_def nobody_def m_alice_def m_ghost_def m_null_def m_empty_def
  m_bob_def legacy_db_def migrated_db_def empty_email_db_def connection_lost_def
  shadowed_bare_db_def shadowed_migrated_db_def

subsection \<open>Statements and steps that return\<close>

lemma filter_none_id: "length (filter P xs) = 0 \<Longrightarrow> filter (\<lambda>r. \<not> P r) xs = xs"
  by (induction xs) (auto split: if_splits)

lemma update_rows_Inr: "update_rows us rs = Inr rs' \<Longrightarrow> rs' = map (resolved us) rs"
  by (induction rs arbitrary: rs') (auto simp: resolved_def split: if_splits sum.splits)

lemma update_rows_select:
  "update_rows us rs = Inr rs' \<Longrightarrow> r \<in> set rs \<Longrightarrow> orphaned r \<Longrightarrow> \<exists>v. select_user_id us (user_email r) = Inr v"
  by (induction rs arbitrary: rs') (auto split: if_splits sum.splits)

lemma update_rows_no_orphans:
  "\<forall>r \<in> set rs. \<not> orphaned r \<Longrightarrow> update_rows us rs = Inr rs"
  by (induction rs) auto

lemma and_then_Inr:
  "and_then m k w = (w', Inr b) \<Longrightarrow> \<exists>w1 a. m w = (w1, Inr a) \<and> k a w1 = (w', Inr b)"
  by (auto simp: and_then_def split: prod.splits sum.splits)

lemma db_execute_Inr:
  "db_execute f s w = (w', Inr n) \<Longrightarrow>
     f s = None \<and> exec_stmt s (db w) = Inr (db w', n) \<and> events w' = events w @ [Exec s (db w) (Inr n)]"
  by (auto simp: db_execute_def split: option.splits sum.splits prod.splits)

lemma console_log_eq:
  "console_log m w = (w', r) \<Longrightarrow> db w' = db w \<and> events w' = events w @ [Log m] \<and> r = Inr ()"
  by (auto simp: console_log_def)

lemma sql_count_Inr:
  "sql_count b P d = Inr (d', n) \<Longrightarrow>
     d' = d \<and> n = length (filter P (workspace_member d)) \<and> has_user_id d \<and> (b \<longrightarrow> has_user_email d)"
  by (auto simp: sql_count_def missing_column_def split: option.splits if_splits)

lemma sql_delete_Inr:
  "sql_delete b P d = Inr (d', n) \<Longrightarrow>
     d' = d\<lparr>workspace_member := filter (\<lambda>r. \<not> P r) (workspace_member d)\<rparr> \<and>
     n = length (filter P (workspace_member d))"
  by (auto simp: sql_delete_def missing_column_def split: option.splits if_splits)

lemma sweep_Inr:
  assumes run: "and_then (db_execute f cnt) (\<lambda>n.
       if count_positive n then
         and_then (console_log (mk n)) (\<lambda>_.
         and_then (db_execute f del) (\<lambda>_. fin))
       else skip) w = (w', Inr u)"
    and cnt: "exec_stmt cnt = sql_count b P"
    and del: "exec_stmt del = sql_delete b P"
    and fin: "\<And>v. fin v = (v\<lparr>events := events v @ fe\<rparr>, Inr ())"
  defines "n \<equiv> length (filter P (workspace_member (db w)))"
  shows "has_user_id (db w) \<and> (b \<longrightarrow> has_user_email (db w)) \<and>
         db w' = (db w)\<lparr>workspace_member := filter (\<lambda>r. \<not> P r) (workspace_member (db w))\<rparr> \<and>
         events w' = events w @ Exec cnt (db w) (Inr n) #
            (if 0 < n then [Log (mk n), Exec del (db w) (Inr n)] @ fe else [])"
proof -
  from run obtain w1 c where c: "db_execute f cnt w = (w1, Inr c)"
    and k: "(if count_positive c then
         and_then (console_log (mk c)) (\<lambda>_.
         and_then (db_execute f del) (\<lambda>_. fin))
       else skip) w1 = (w', Inr u)"
    by (blast dest: and_then_Inr)
  from db_execute_Inr[OF c] cnt
  have w1: "db w1 = db w" "c = n" "has_user_id (db w)" "b \<longrightarrow> has_user_email (db w)"
    "events w1 = events w @ [Exec cnt (db w) (Inr n)]"
    by (auto simp: n_def dest: sql_count_Inr)
  show ?thesis
  proof (cases "0 < n")
    case True
    with k w1 have "and_then (console_log (mk n)) (\<lambda>_.
         and_then (db_execute f del) (\<lambda>_. fin)) w1 = (w', Inr u)"
      by (simp add: count_positive_def)
    from and_then_Inr[OF this] obtain w2 a where l: "console_log (mk n) w1 = (w2, Inr a)"
      and dl: "and_then (db_execute f del) (\<lambda>_. fin) w2 = (w', Inr u)"
      by blast
    from and_then_Inr[OF dl] obtain w3 m where d3: "db_execute f del w2 = (w3, Inr m)"
      and f3: "fin w3 = (w', Inr u)"
      by blast
    from f3 fin have w': "db w' = db w3" "events w' = events w3 @ fe" by auto
    from db_execute_Inr[OF d3] del console_log_eq[OF l] w1 True w' show ?thesis
      by (auto simp: n_def dest!: sql_delete_Inr)
  next
    case False
    with k w1 have "w' = w1" by (simp add: count_positive_def skip_def)
    with False w1 show ?thesis by (simp add: n_def filter_none_id)
  qed
qed

lemma skip_eq: "skip v = (v\<lparr>events := events v @ []\<rparr>, Inr ())"
  by (simp add: skip_def)

lemma console_log_fin: "console_log m v = (v\<lparr>events := events v @ [Log m]\<rparr>, Inr ())"
  by (simp add: console_log_def)

lemma remove_orphaned_Inr:
  assumes "remove_orphaned f w = (w', Inr u)"
  shows "has_user_id (db w) \<and> has_user_email (db w) \<and>
         db w' = (db w)\<lparr>workspace_member := filter (\<lambda>r. \<not> orphaned r) (workspace_member (db w))\<rparr> \<and>
         events w' = events w @ sweep_events CountOrphaned DeleteOrphaned LogOrphaned orphaned (db w)"
  using sweep_Inr[OF assms[unfolded remove_orphaned_def], of True orphaned "[]"]
  by (simp add: skip_eq fun_eq_iff sweep_events_def)

lemma remove_null_Inr:
  assumes "remove_null f w = (w', Inr u)"
  shows "has_user_id (db w) \<and> has_user_email (db w) \<and>
         db w' = (db w)\<lparr>workspace_member := filter (\<lambda>r. \<not> unidentified r) (workspace_member (db w))\<rparr> \<and>
         events w' = events w @ sweep_events CountNull DeleteNull LogNullRecords unidentified (db w)"
  using sweep_Inr[OF assms[unfolded remove_null_def], of True unidentified "[]"]
  by (simp add: skip_eq fun_eq_iff sweep_events_def)

lemma remove_null_user_ids_Inr:
  assumes "remove_null_user_ids f w = (w', Inr u)"
  shows "has_user_id (db w) \<and>
         db w' = (db w)\<lparr>workspace_member := filter (\<lambda>r. \<not> null_user_id r) (workspace_member (db w))\<rparr> \<and>
         events w' = events w @ sweep_events CountNullUserIds DeleteNullUserIds LogNullUserIds null_user_id (db w) @
            (if 0 < length (filter null_user_id (workspace_member (db w))) then [Log LogRemoved] else [])"
  using sweep_Inr[OF assms[unfolded remove_null_user_ids_def], of False null_user_id "[Log LogRemoved]"]
  by (simp add: console_log_fin fun_eq_iff sweep_events_def)

lemma after_add_simps:
  "has_user_email (after_add d) = has_user_email d"
  "other_user_email (after_add d) = other_user_email d"
  "other_user_id (after_add d) = other_user_id d"
  "user_table (after_add d) = user_table d"
  "probe_user_email (after_add d) = probe_user_email d"
  "0 < probe_user_id (after_add d)"
  by (simp_all add: after_add_def add_user_id_column_def probe_user_email_def probe_user_id_def)

lemma after_add_has_user_id:
  "has_user_id (after_add d) \<longleftrightarrow> has_user_id d \<or> other_user_id d = 0"
  by (auto simp: after_add_def add_user_id_column_def probe_user_id_def)

lemma exec_update_Inr:
  "exec_stmt UpdateUserId d = Inr (d', n) \<Longrightarrow>
     has_user_id d \<and> has_user_email d \<and>
     update_rows (user_table d) (workspace_member d) = Inr (workspace_member d') \<and>
     d' = d\<lparr>workspace_member := map (resolved (user_table d)) (workspace_member d)\<rparr> \<and>
     n = length (filter orphaned (workspace_member d))"
  by (auto simp: missing_column_def dest: update_rows_Inr split: if_splits sum.splits option.splits)

lemma legacy_branch_Inr:
  assumes "legacy_branch f w = (w', Inr u)"
  shows "has_user_email (db w) \<and> has_user_id (after_add (db w)) \<and>
         update_rows (user_table (db w)) (workspace_member (after_add (db w))) =
           Inr (workspace_member (after_update (db w))) \<and>
         db w' = after_null (db w) \<and>
         events w' = events w @ legacy_events (db w)"
proof -
  from and_then_Inr[OF assms[unfolded legacy_branch_def]]
  obtain w1 a1 where s1: "console_log LogFoundColumn w = (w1, Inr a1)"
    and r1: "and_then (db_execute f AddUserIdColumn) (\<lambda>_.
     and_then (db_execute f UpdateUserId) (\<lambda>_.
     and_then (remove_orphaned f) (\<lambda>_.
     and_then (remove_null f) (\<lambda>_.
     console_log LogMigrated)))) w1 = (w', Inr u)" by blast
  from and_then_Inr[OF r1]
  obtain w2 a2 where s2: "db_execute f AddUserIdColumn w1 = (w2, Inr a2)"
    and r2: "and_then (db_execute f UpdateUserId) (\<lambda>_.
     and_then (remove_orphaned f) (\<lambda>_.
     and_then (remove_null f) (\<lambda>_.
     console_log LogMigrated))) w2 = (w', Inr u)" by blast
  from and_then_Inr[OF r2]
  obtain w3 a3 where s3: "db_execute f UpdateUserId w2 = (w3, Inr a3)"
    and r3: "and_then (remove_orphaned f) (\<lambda>_.
     and_then (remove_null f) (\<lambda>_.
     console_log LogMigrated)) w3 = (w', Inr u)" by blast
  from and_then_Inr[OF r3]
  obtain w4 a4 where s4: "remove_orphaned f w3 = (w4, Inr a4)"
    and r4: "and_then (remove_null f) (\<lambda>_. console_log LogMigrated) w4 = (w', Inr u)" by blast
  from and_then_Inr[OF r4]
  obtain w5 a5 where s5: "remove_null f w4 = (w5, Inr a5)"
    and s6: "console_log LogMigrated w5 = (w', Inr u)" by blast
  note e1 = console_log_eq[OF s1]
  from db_execute_Inr[OF s2] e1
  have e2: "db w2 = after_add (db w)"
    "events w2 = events w @ [Log LogFoundColumn,
       Exec AddUserIdColumn (db w) (Inr (if 0 < probe_user_id (db w) then 0 else 1))]"
    by (auto simp: after_add_def split: if_splits)
  from db_execute_Inr[OF s3] e2
  have x3: "exec_stmt UpdateUserId (after_add (db w)) = Inr (db w3, a3)"
    and ev3: "events w3 = events w2 @ [Exec UpdateUserId (after_add (db w)) (Inr a3)]"
    by auto
  from exec_update_Inr[OF x3]
  have em: "has_user_email (db w)" and id: "has_user_id (after_add (db w))"
    and up: "update_rows (user_table (db w)) (workspace_member (after_add (db w))) = Inr (workspace_member (db w3))"
    and e3: "db w3 = after_update (db w)"
    and a3: "a3 = length (filter orphaned (workspace_member (after_add (db w))))"
    by (simp_all add: after_add_simps after_update_def)
  from remove_orphaned_Inr[OF s4] e3
  have e4: "db w4 = after_orphaned (db w)"
    "events w4 = events w3 @ sweep_events CountOrphaned DeleteOrphaned LogOrphaned orphaned (after_update (db w))"
    by (simp_all add: after_orphaned_def)
  from remove_null_Inr[OF s5] e4
  have e5: "db w5 = after_null (db w)"
    "events w5 = events w4 @ sweep_events CountNull DeleteNull LogNullRecords unidentified (after_orphaned (db w))"
    by (simp_all add: after_null_def)
  from console_log_eq[OF s6] e5 e4 ev3 e2 a3 em id up e3 show ?thesis
    by (simp add: legacy_events_def)
qed

subsection \<open>The database after a run that returns\<close>

lemma after_null_simps:
  "has_user_id (after_null d) = has_user_id (after_add d)"
  "has_user_email (after_null d) = has_user_email d"
  "user_table (after_null d) = user_table d"
  by (simp_all add: after_null_def after_orphaned_def after_update_def after_add_simps)

lemma after_null_rows:
  "workspace_member (after_null d) =
     filter (\<lambda>r. user_id r \<noteq> None) (map (resolved (user_table d)) (workspace_member (after_add d)))"
  by (auto simp: after_null_def after_orphaned_def after_update_def orphaned_def unidentified_def
           intro!: filter_cong)

lemma after_null_no_null: "filter null_user_id (workspace_member (after_null d)) = []"
  by (auto simp: after_null_rows null_user_id_def filter_empty_conv)

lemma after_null_sweep:
  "(after_null d)\<lparr>workspace_member :=
      filter (\<lambda>r. \<not> null_user_id r) (workspace_member (after_null d))\<rparr> = after_null d"
  by (simp add: filter_none_id after_null_no_null)

lemma try_block_Inr:
  assumes "try_block f w = (w', Inr u)"
  shows "if 0 < probe_user_email (db w) then
           has_user_email (db w) \<and> has_user_id (after_add (db w)) \<and>
           update_rows (user_table (db w)) (workspace_member (after_add (db w))) =
             Inr (workspace_member (after_update (db w))) \<and>
           db w' = after_null (db w) \<and>
           events w' = events w @
             Exec SelectUserEmailColumn (db w) (Inr (probe_user_email (db w))) #
             legacy_events (db w) @
             [Exec CountNullUserIds (after_null (db w)) (Inr 0), Log LogCompleted]
         else
           has_user_id (db w) \<and>
           db w' = (db w)\<lparr>workspace_member :=
                      filter (\<lambda>r. \<not> null_user_id r) (workspace_member (db w))\<rparr> \<and>
           events w' = events w @ Exec SelectUserEmailColumn (db w) (Inr 0) #
             sweep_events CountNullUserIds DeleteNullUserIds LogNullUserIds null_user_id (db w) @
             (if 0 < length (filter null_user_id (workspace_member (db w))) then [Log LogRemoved] else []) @
             [Log LogCompleted]"
proof -
  from and_then_Inr[OF assms[unfolded try_block_def]]
  obtain w1 n where s1: "db_execute f SelectUserEmailColumn w = (w1, Inr n)"
    and r1: "and_then (if 0 < n then legacy_branch f else skip) (\<lambda>_.
     and_then (remove_null_user_ids f) (\<lambda>_.
     console_log LogCompleted)) w1 = (w', Inr u)" by blast
  from and_then_Inr[OF r1]
  obtain w2 a2 where s2: "(if 0 < n then legacy_branch f else skip) w1 = (w2, Inr a2)"
    and r2: "and_then (remove_null_user_ids f) (\<lambda>_. console_log LogCompleted) w2 = (w', Inr u)"
    by blast
  from and_then_Inr[OF r2]
  obtain w3 a3 where s3: "remove_null_user_ids f w2 = (w3, Inr a3)"
    and s4: "console_log LogCompleted w3 = (w', Inr u)" by blast
  from db_execute_Inr[OF s1]
  have e1: "db w1 = db w" "n = probe_user_email (db w)"
    "events w1 = events w @ [Exec SelectUserEmailColumn (db w) (Inr n)]"
    by auto
  note e3 = remove_null_user_ids_Inr[OF s3]
  note e4 = console_log_eq[OF s4]
  show ?thesis
  proof (cases "0 < probe_user_email (db w)")
    case True
    with s2 e1 have "legacy_branch f w1 = (w2, Inr a2)" by simp
    from legacy_branch_Inr[OF this] e1 e3 e4 True show ?thesis
      by (simp add: after_null_no_null after_null_sweep sweep_events_def)
  next
    case False
    with s2 e1 have "w2 = w1" by (simp add: skip_def)
    with e1 e3 e4 False show ?thesis by simp
  qed
qed

lemma migrate_Inr:
  "migrateWorkspaceUserEmail f d = (w', Inr u) \<Longrightarrow>
     try_block f \<lparr>db = d, events = [Log LogChecking]\<rparr> = (w', Inr u)"
  by (auto simp: migrateWorkspaceUserEmail_def and_then_def console_log_def
           split: prod.splits sum.splits)

lemma migrate_probe_Inr:
  assumes "migrateWorkspaceUserEmail f d = (w', Inr u)" and "0 < probe_user_email d"
  shows "update_rows (user_table d) (workspace_member (after_add d)) =
           Inr (workspace_member (after_update d))"
    and "db w' = after_null d"
    and "events w' = Log LogChecking # Exec SelectUserEmailColumn d (Inr (probe_user_email d)) #
             legacy_events d @
             [Exec CountNullUserIds (after_null d) (Inr 0), Log LogCompleted]"
    and "has_user_id (after_add d)"
    and "has_user_email d"
  using try_block_Inr[OF migrate_Inr[OF assms(1)]] assms(2) by simp_all

lemma migrate_legacy_Inr:
  assumes "migrateWorkspaceUserEmail f d = (w', Inr u)" and "has_user_email d"
  shows "update_rows (user_table d) (workspace_member (after_add d)) =
           Inr (workspace_member (after_update d))"
    and "db w' = after_null d"
    and "events w' = Log LogChecking # Exec SelectUserEmailColumn d (Inr (probe_user_email d)) #
             legacy_events d @
             [Exec CountNullUserIds (after_null d) (Inr 0), Log LogCompleted]"
    and "has_user_id (after_add d)"
proof -
  from assms(2) have "0 < probe_user_email d" by (simp add: probe_user_email_def)
  note m = migrate_probe_Inr[OF assms(1) this]
  show "update_rows (user_table d) (workspace_member (after_add d)) =
           Inr (workspace_member (after_update d))" by (rule m(1))
  show "db w' = after_null d" by (rule m(2))
  show "events w' = Log LogChecking # Exec SelectUserEmailColumn d (Inr (probe_user_email d)) #
             legacy_events d @
             [Exec CountNullUserIds (after_null d) (Inr 0), Log LogCompleted]" by (rule m(3))
  show "has_user_id (after_add d)" by (rule m(4))
qed

lemma migrate_plain_Inr:
  assumes "migrateWorkspaceUserEmail f d = (w', Inr u)" and "probe_user_email d = 0"
  shows "has_user_id d"
    and "db w' = d\<lparr>workspace_member := filter (\<lambda>r. \<not> null_user_id r) (workspace_member d)\<rparr>"
    and "events w' = Log LogChecking # Exec SelectUserEmailColumn d (Inr 0) #
             sweep_events CountNullUserIds DeleteNullUserIds LogNullUserIds null_user_id d @
             (if 0 < length (filter null_user_id (workspace_member d)) then [Log LogRemoved] else []) @
             [Log LogCompleted]"
  using try_block_Inr[OF migrate_Inr[OF assms(1)]] assms(2) by simp_all

subsection \<open>What becomes of a single row\<close>

lemma select_user_id_found:
  "select_user_id us (Some e) = Inr v \<Longrightarrow> u \<in> set us \<Longrightarrow> u_email u = Some e \<Longrightarrow> v = Some (u_id u)"
proof -
  assume a: "select_user_id us (Some e) = Inr v" and u: "u \<in> set us" "u_email u = Some e"
  from u have m: "u \<in> set (filter (\<lambda>u. u_email u = Some e) us)" by simp
  from a m show ?thesis
    by (cases "filter (\<lambda>u. u_email u = Some e) us")
       (auto simp: select_user_id_def split: list.splits)
qed

lemma select_user_id_none:
  "\<forall>u \<in> set us. u_email u \<noteq> em \<Longrightarrow> select_user_id us em = Inr None"
  by (simp add: select_user_id_def filter_empty_conv[THEN iffD2])

lemma user_id_None_upd: "user_id r = None \<Longrightarrow> r\<lparr>user_id := None\<rparr> = r"
  by (cases r) simp

lemma after_add_rows:
  "has_user_id (after_add d) \<Longrightarrow>
   workspace_member (after_add d) =
     (if has_user_id d then workspace_member d
      else map (\<lambda>r. r\<lparr>user_id := None\<rparr>) (workspace_member d))"
  by (auto simp: after_add_def add_user_id_column_def probe_user_id_def split: if_splits)

lemma after_add_member:
  "r \<in> set (workspace_member d) \<Longrightarrow> has_user_id d \<longrightarrow> user_id r = None \<Longrightarrow>
   has_user_id (after_add d) \<Longrightarrow>
   r\<lparr>user_id := None\<rparr> \<in> set (workspace_member (after_add d))"
  by (cases "has_user_id d") (auto simp: after_add_rows user_id_None_upd)

lemma after_add_origin:
  "r0 \<in> set (workspace_member (after_add d)) \<Longrightarrow> has_user_id (after_add d) \<Longrightarrow>
   \<exists>r \<in> set (workspace_member d). r0 = (if has_user_id d then r else r\<lparr>user_id := None\<rparr>)"
  by (cases "has_user_id d") (auto simp: after_add_rows)

lemma after_add_email:
  "r0 \<in> set (workspace_member (after_add d)) \<Longrightarrow>
   \<exists>r \<in> set (workspace_member d). user_email r0 = user_email r"
  by (auto simp: after_add_def add_user_id_column_def split: if_splits)

lemma row_id_resolved: "row_id (resolved us r) = row_id r"
  by (simp add: resolved_def)

lemma deleted_row_id:
  assumes r: "r \<in> set (workspace_member d)" and n: "has_user_id d \<longrightarrow> user_id r = None"
    and u: "user_id (resolved (user_table d) (r\<lparr>user_id := None\<rparr>)) = None"
    and dist: "distinct (map row_id (workspace_member d))"
    and col: "has_user_id (after_add d)"
  shows "row_id r \<notin> row_id ` set (workspace_member (after_null d))"
proof
  assume "row_id r \<in> row_id ` set (workspace_member (after_null d))"
  then obtain x where x: "x \<in> set (workspace_member (after_null d))" and xr: "row_id x = row_id r"
    by auto
  from x obtain r0 where r0: "r0 \<in> set (workspace_member (after_add d))"
    and xe: "x = resolved (user_table d) r0" and xn: "user_id x \<noteq> None"
    by (auto simp: after_null_rows)
  from after_add_origin[OF r0 col] obtain r' where r': "r' \<in> set (workspace_member d)"
    and r0e: "r0 = (if has_user_id d then r' else r'\<lparr>user_id := None\<rparr>)" by blast
  from xr xe r0e have "row_id r' = row_id r" by (simp add: row_id_resolved split: if_splits)
  with dist r r' have "r' = r" by (auto simp: distinct_map dest: inj_onD)
  with r0e n have "r0 = r\<lparr>user_id := None\<rparr>" by (auto simp: user_id_None_upd split: if_splits)
  with xe u xn show False by simp
qed

lemma after_update_simps:
  "has_user_id (after_update d) = has_user_id (after_add d)"
  "has_user_email (after_update d) = has_user_email d"
  "has_user_id (after_orphaned d) = has_user_id (after_add d)"
  "has_user_email (after_orphaned d) = has_user_email d"
  by (simp_all add: after_orphaned_def after_update_def after_add_simps)

lemma exec_delete_orphaned:
  "has_user_email d \<Longrightarrow> has_user_id (after_add d) \<Longrightarrow>
   exec_stmt DeleteOrphaned (after_update d) =
     Inr (after_orphaned d, length (filter orphaned (workspace_member (after_update d))))"
  by (simp add: sql_delete_def missing_column_def after_update_simps after_orphaned_def)

lemma exec_delete_null:
  "has_user_email d \<Longrightarrow> has_user_id (after_add d) \<Longrightarrow>
   exec_stmt DeleteNull (after_orphaned d) =
     Inr (after_null d, length (filter unidentified (workspace_member (after_orphaned d))))"
  by (simp add: sql_delete_def missing_column_def after_update_simps after_null_def)

lemma filter_length_pos: "x \<in> set xs \<Longrightarrow> P x \<Longrightarrow> 0 < length (filter P xs)"
  by (induction xs) auto

subsection \<open>Properties kept by every run\<close>

lemma preserves_and_then:
  "preserves I m \<Longrightarrow> (\<And>a. preserves I (k a)) \<Longrightarrow> preserves I (and_then m k)"
  by (fastforce simp: preserves_def and_then_def split: prod.splits sum.splits)

lemma preserves_skip: "preserves I skip"
  by (simp add: preserves_def skip_def)

lemma preserves_if: "preserves I a \<Longrightarrow> preserves I b \<Longrightarrow> preserves I (if c then a else b)"
  by simp

lemma preserves_try_block:
  assumes exec: "\<And>s. preserves I (db_execute f s)" and log: "\<And>m. preserves I (console_log m)"
  shows "preserves I (try_block f)"
  unfolding try_block_def legacy_branch_def remove_orphaned_def remove_null_def
    remove_null_user_ids_def
  by (intro preserves_and_then preserves_if preserves_skip exec log)

lemma migrate_invariant:
  assumes exec: "\<And>s. preserves I (db_execute f s)" and log: "\<And>m. preserves I (console_log m)"
    and init: "I \<lparr>db = d, events = []\<rparr>"
  shows "I (fst (migrateWorkspaceUserEmail f d))"
proof -
  let ?body = "and_then (console_log LogChecking) (\<lambda>_. try_block f)"
  have "preserves I ?body"
    by (intro preserves_and_then preserves_try_block exec log)
  with init have b: "I (fst (?body \<lparr>db = d, events = []\<rparr>))" by (simp add: preserves_def)
  show ?thesis
  proof (cases "?body \<lparr>db = d, events = []\<rparr>")
    case (Pair w res)
    with b have w: "I w" by simp
    show ?thesis
    proof (cases res)
      case (Inl e)
      from log[of "LogError e"] w have "I (w\<lparr>events := events w @ [Log (LogError e)]\<rparr>)"
        by (simp add: preserves_def console_log_def)
      with Pair Inl show ?thesis by (simp add: migrateWorkspaceUserEmail_def)
    next
      case (Inr u)
      with Pair w show ?thesis by (simp add: migrateWorkspaceUserEmail_def)
    qed
  qed
qed

lemma resolved_non_null: "user_id r \<noteq> None \<Longrightarrow> resolved us r = r"
  by (auto simp: resolved_def orphaned_def)

lemma subseq_member: "subseq xs ys \<Longrightarrow> x \<in> set xs \<Longrightarrow> x \<in> set ys"
  by (auto dest: list_emb_set)

lemma subseq_map_fixed:
  assumes "subseq xs ys" and "\<forall>x \<in> set xs. g x = x"
  shows "subseq xs (map g ys)"
proof -
  from assms(2) have "map g xs = xs" by (simp add: map_idI)
  with subseq_map[OF assms(1), of g] show ?thesis by simp
qed

lemma subseq_filter_kept:
  assumes "subseq xs ys" and "\<forall>x \<in> set xs. P x"
  shows "subseq xs (filter P ys)"
proof -
  from assms(2) have "filter P xs = xs" by simp
  with subseq_filter[OF assms(1), of P] show ?thesis by simp
qed

lemma exec_stmt_keeps:
  assumes "exec_stmt s d = Inr (d', n)" and "has_user_id d"
    and "\<forall>x \<in> set xs. user_id x \<noteq> None" and "subseq xs (workspace_member d)"
  shows "has_user_id d' \<and> subseq xs (workspace_member d')"
proof (cases s)
  case UpdateUserId
  with assms(1) have "exec_stmt UpdateUserId d = Inr (d', n)" by simp
  from exec_update_Inr[OF this] assms(2-) show ?thesis
    by (auto intro!: subseq_map_fixed simp: resolved_non_null)
qed (use assms in \<open>auto simp: sql_count_def sql_delete_def orphaned_def unidentified_def
      null_user_id_def probe_user_id_def split: option.splits intro!: subseq_filter_kept\<close>)

subsection \<open>The example run\<close>

lemma legacy_res: "snd (migrateWorkspaceUserEmail no_faults legacy_db) = Inr ()"
  by (simp add: run_defs example_defs)

lemma legacy_run:
  "migrateWorkspaceUserEmail no_faults legacy_db =
     (fst (migrateWorkspaceUserEmail no_faults legacy_db), Inr ())"
  using legacy_res by (simp add: prod_eq_iff)

lemma legacy_db_facts:
  "has_user_email legacy_db" "has_user_id legacy_db"
  "distinct (map row_id (workspace_member legacy_db))"
  "alice \<in> set (user_table legacy_db)"
  "m_alice \<in> set (workspace_member legacy_db)"
  "m_ghost \<in> set (workspace_member legacy_db)"
  "m_null \<in> set (workspace_member legacy_db)"
  "m_bob \<in> set (workspace_member legacy_db)"
  by (simp_all add: example_defs)

subsection \<open>Rules for pre- and postconditions\<close>

lemma hoare_and_then:
  assumes "hoare P m Q E" and "\<And>a. hoare (Q a) (k a) R E"
  shows "hoare P (and_then m k) R E"
  using assms by (fastforce simp: hoare_def and_then_def split: prod.splits sum.splits)

lemma hoare_dead_end:
  assumes "hoare P m (\<lambda>_ _. False) E"
  shows "hoare P (and_then m k) R E"
  using assms by (fastforce simp: hoare_def and_then_def split: prod.splits sum.splits)

lemma hoare_if:
  assumes "c \<Longrightarrow> hoare P a Q E" and "\<not> c \<Longrightarrow> hoare P b Q E"
  shows "hoare P (if c then a else b) Q E"
  using assms by simp

lemma hoare_skip: "hoare (Q ()) skip Q E"
  by (simp add: hoare_def skip_def)

lemma hoare_log:
  assumes "\<And>w. P w \<Longrightarrow> Q () (w\<lparr>events := events w @ [Log m]\<rparr>)"
  shows "hoare P (console_log m) Q E"
  using assms by (simp add: hoare_def console_log_def)

lemma hoare_pre:
  assumes "hoare P' m Q E" and "\<And>w. P w \<Longrightarrow> P' w"
  shows "hoare P m Q E"
  using assms by (simp add: hoare_def)

lemma hoare_exec:
  assumes "\<And>w e. P w \<Longrightarrow> faults s = Some e \<or> (faults s = None \<and> exec_stmt s (db w) = Inl e) \<Longrightarrow>
             E e (w\<lparr>events := events w @ [Exec s (db w) (Inl e)]\<rparr>)"
    and "\<And>w d' n. P w \<Longrightarrow> faults s = None \<Longrightarrow> exec_stmt s (db w) = Inr (d', n) \<Longrightarrow>
             Q n (w\<lparr>db := d', events := events w @ [Exec s (db w) (Inr n)]\<rparr>)"
  shows "hoare P (db_execute faults s) Q E"
  unfolding hoare_def
proof (intro allI impI)
  fix w :: world assume P: "P w"
  show "case db_execute faults s w of (w', Inr a) \<Rightarrow> Q a w' | (w', Inl e) \<Rightarrow> E e w'"
  proof (cases "faults s")
    case (Some e)
    with assms(1)[OF P, of e] show ?thesis by (simp add: db_execute_def)
  next
    case None
    show ?thesis
    proof (cases "exec_stmt s (db w)")
      case (Inl e)
      with None assms(1)[OF P, of e] show ?thesis by (simp add: db_execute_def)
    next
      case (Inr p)
      obtain d' n where p: "p = (d', n)" by (cases p)
      with Inr None assms(2)[OF P None, of d' n] show ?thesis
        by (simp add: db_execute_def)
    qed
  qed
qed

lemma hoare_migrate:
  assumes "hoare P (try_block f) Q E" and "P \<lparr>db = d, events = [Log LogChecking]\<rparr>"
  shows "case migrateWorkspaceUserEmail f d of
           (w', Inr u) \<Rightarrow> Q u w'
         | (w', Inl e) \<Rightarrow> (\<exists>w. E e w \<and> w' = w\<lparr>events := events w @ [Log (LogError e)]\<rparr>)"
proof -
  let ?w0 = "\<lparr>db = d, events = [Log LogChecking]\<rparr>"
  have body: "and_then (console_log LogChecking) (\<lambda>_. try_block f) \<lparr>db = d, events = []\<rparr> =
      try_block f ?w0"
    by (simp add: and_then_def console_log_def)
  from assms have t: "case try_block f ?w0 of (w', Inr a) \<Rightarrow> Q a w' | (w', Inl e) \<Rightarrow> E e w'"
    by (simp add: hoare_def)
  show ?thesis
  proof (cases "try_block f ?w0")
    case (Pair w res)
    with t body show ?thesis
      by (cases res) (auto simp: migrateWorkspaceUserEmail_def)
  qed
qed

lemma hoare_result:
  assumes "hoare P (try_block f) (\<lambda>_. I) (\<lambda>_. I)" and "P \<lparr>db = d, events = [Log LogChecking]\<rparr>"
    and "\<And>w e. I w \<Longrightarrow> I (w\<lparr>events := events w @ [Log (LogError e)]\<rparr>)"
  shows "I (fst (migrateWorkspaceUserEmail f d))"
proof (cases "migrateWorkspaceUserEmail f d")
  case (Pair w' res)
  with hoare_migrate[OF assms(1,2)] assms(3) show ?thesis
    by (cases res) auto
qed

lemma stmts_of_set: "s \<in> set (stmts_of evs) \<longleftrightarrow> (\<exists>d out. Exec s d out \<in> set evs)"
  by (induction evs rule: stmts_of.induct) auto

lemma hoare_uniform:
  assumes exec: "\<And>s. hoare P (db_execute f s) (\<lambda>_. P) E"
    and log: "\<And>m. hoare P (console_log m) (\<lambda>_. P) E"
  shows "hoare P (try_block f) (\<lambda>_. P) E"
proof -
  have skip: "hoare P skip (\<lambda>_. P) E" by (rule hoare_skip)
  note seq = hoare_and_then[where Q = "\<lambda>_. P" and P = P and E = E]
  show ?thesis
    unfolding try_block_def legacy_branch_def remove_orphaned_def remove_null_def
      remove_null_user_ids_def
    by (intro seq hoare_if exec log skip)
qed

subsection \<open>Errors and the order of events\<close>

lemma raised_iff: "raised ev \<longleftrightarrow> (\<exists>s d e. ev = Exec s d (Inl e))"
  by (cases ev rule: raised.cases) auto

lemma run_orderly:
  "case migrateWorkspaceUserEmail f d of
     (w', Inr u) \<Rightarrow> (\<forall>ev \<in> set (events w'). \<not> raised ev)
   | (w', Inl e) \<Rightarrow>
       (\<exists>evs s. events w' = evs @ [Exec s (db w') (Inl e), Log (LogError e)] \<and>
                (\<forall>ev \<in> set evs. \<not> raised ev))"
proof -
  define P where "P = (\<lambda>w::world. \<forall>ev \<in> set (events w). \<not> raised ev)"
  define E where "E = (\<lambda>e (w::world). \<exists>evs s. events w = evs @ [Exec s (db w) (Inl e)] \<and>
                (\<forall>ev \<in> set evs. \<not> raised ev))"
  have exec: "hoare P (db_execute f s) (\<lambda>_. P) E" for s
    by (rule hoare_exec) (auto simp: P_def E_def)
  have log: "hoare P (console_log m) (\<lambda>_. P) E" for m
    by (rule hoare_log) (simp add: P_def)
  have "P \<lparr>db = d, events = [Log LogChecking]\<rparr>" by (simp add: P_def)
  from hoare_migrate[OF hoare_uniform[of P f E, OF exec log] this]
  show ?thesis
    by (auto simp: P_def E_def split: prod.splits sum.splits)
qed

lemma stmts_of_append: "stmts_of (xs @ ys) = stmts_of xs @ stmts_of ys"
  by (induction xs rule: stmts_of.induct) simp_all

lemma run_no_retry: "distinct (stmts_of (events (fst (migrateWorkspaceUserEmail f d))))"
proof -
  define U where "U = (\<lambda>S (w::world). distinct (stmts_of (events w)) \<and> set (stmts_of (events w)) \<subseteq> S)"
  define E where "E = (\<lambda>(e::db_error) (w::world). distinct (stmts_of (events w)))"
  have exec: "hoare (U S) (db_execute f s) (\<lambda>_. U (insert s S)) E" if "s \<notin> S" for s S
    by (rule hoare_exec) (use that in \<open>auto simp: U_def E_def stmts_of_append\<close>)
  have log: "hoare (U S) (console_log m) (\<lambda>_. U S) E" for m S
    by (rule hoare_log) (simp add: U_def stmts_of_append)
  have idle: "hoare (U S) skip (\<lambda>_. U T) E" if "S \<subseteq> T" for S T
    by (rule hoare_pre[OF hoare_skip]) (use that in \<open>auto simp: U_def\<close>)
  have sweep: "hoare (U S) (and_then (db_execute f cnt) (\<lambda>n.
       if count_positive n then
         and_then (console_log (mk n)) (\<lambda>_.
         and_then (db_execute f del) (\<lambda>_. fin))
       else skip)) (\<lambda>_. U (insert del (insert cnt S))) E"
    if "cnt \<notin> S" "del \<notin> insert cnt S"
      and "hoare (U (insert del (insert cnt S))) fin (\<lambda>_. U (insert del (insert cnt S))) E"
    for S cnt del mk fin
  proof (rule hoare_and_then[OF exec[OF that(1)]], rule hoare_if)
    fix n
    show "hoare (U (insert cnt S)) (and_then (console_log (mk n)) (\<lambda>_.
         and_then (db_execute f del) (\<lambda>_. fin))) (\<lambda>_. U (insert del (insert cnt S))) E"
      by (rule hoare_and_then[OF log], rule hoare_and_then[OF exec[OF that(2)]], rule that(3))
    show "hoare (U (insert cnt S)) skip (\<lambda>_. U (insert del (insert cnt S))) E"
      by (rule idle) auto
  qed
  let ?S3 = "{UpdateUserId, AddUserIdColumn, SelectUserEmailColumn}"
  let ?S5 = "insert DeleteOrphaned (insert CountOrphaned ?S3)"
  let ?S7 = "insert DeleteNull (insert CountNull ?S5)"
  let ?S9 = "insert DeleteNullUserIds (insert CountNullUserIds ?S7)"
  have orph: "hoare (U ?S3) (remove_orphaned f) (\<lambda>_. U ?S5) E"
    unfolding remove_orphaned_def by (rule sweep) (simp_all add: idle)
  have null: "hoare (U ?S5) (remove_null f) (\<lambda>_. U ?S7) E"
    unfolding remove_null_def by (rule sweep) (simp_all add: idle)
  have last: "hoare (U ?S7) (remove_null_user_ids f) (\<lambda>_. U ?S9) E"
    unfolding remove_null_user_ids_def by (rule sweep) (simp_all add: log)
  have legacy: "hoare (U {SelectUserEmailColumn}) (legacy_branch f) (\<lambda>_. U ?S7) E"
    unfolding legacy_branch_def
    by (rule hoare_and_then[OF log],
        rule hoare_and_then[OF exec[of AddUserIdColumn "{SelectUserEmailColumn}"]], simp,
        rule hoare_and_then[OF exec[of UpdateUserId "{AddUserIdColumn, SelectUserEmailColumn}"]], simp,
        rule hoare_and_then[OF orph], rule hoare_and_then[OF null], rule log)
  have branch: "hoare (U {SelectUserEmailColumn}) (if 0 < n then legacy_branch f else skip)
      (\<lambda>_. U ?S7) E" for n :: nat
    by (rule hoare_if[OF legacy]) (rule idle, simp)
  have "hoare (U {}) (try_block f) (\<lambda>_. U ?S9) E"
    unfolding try_block_def
    by (rule hoare_and_then[OF exec[of SelectUserEmailColumn "{}"]], simp,
        rule hoare_and_then[OF branch], rule hoare_and_then[OF last], rule log)
  moreover have "U {} \<lparr>db = d, events = [Log LogChecking]\<rparr>" by (simp add: U_def)
  ultimately have "case migrateWorkspaceUserEmail f d of
           (w', Inr u) \<Rightarrow> U ?S9 w'
         | (w', Inl e) \<Rightarrow> (\<exists>w. E e w \<and> w' = w\<lparr>events := events w @ [Log (LogError e)]\<rparr>)"
    by (rule hoare_migrate)
  then show ?thesis
    by (auto simp: U_def E_def stmts_of_append split: prod.splits sum.splits)
qed

lemma run_faults:
  "\<forall>ev \<in> set (events (fst (migrateWorkspaceUserEmail f d))).
     \<forall>s d0 out e. ev = Exec s d0 out \<longrightarrow> f s = Some e \<longrightarrow> out = Inl e"
proof -
  let ?I = "\<lambda>w::world. \<forall>ev \<in> set (events w). \<forall>s d0 out e. ev = Exec s d0 out \<longrightarrow> f s = Some e \<longrightarrow> out = Inl e"
  have exec: "preserves ?I (db_execute f s)" for s
    by (auto simp: preserves_def db_execute_def split: option.splits sum.splits prod.splits)
  have log: "preserves ?I (console_log m)" for m
    by (simp add: preserves_def console_log_def)
  from migrate_invariant[of ?I f d, OF exec log] show ?thesis by simp
qed

subsection \<open>Runs that change nothing\<close>

lemma settled_log: "hoare (settled d) (console_log m) (\<lambda>_. settled d) E"
  by (rule hoare_log) (simp add: settled_def)

lemma settled_exec:
  assumes "\<And>d' n. exec_stmt s d = Inr (d', n) \<Longrightarrow> d' = d"
  shows "hoare (settled d) (db_execute f s) (\<lambda>_. settled d) (\<lambda>_. settled d)"
proof (rule hoare_exec)
  fix w :: world and e
  assume "settled d w"
  then show "settled d (w\<lparr>events := events w @ [Exec s (db w) (Inl e)]\<rparr>)"
    by (simp add: settled_def)
next
  fix w :: world and d' n
  assume s: "settled d w" and x: "exec_stmt s (db w) = Inr (d', n)"
  from s have dw: "db w = d" by (simp add: settled_def)
  with x assms have "d' = d" by simp
  with s x dw show "settled d (w\<lparr>db := d', events := events w @ [Exec s (db w) (Inr n)]\<rparr>)"
    by (simp add: settled_def)
qed

lemma settled_exec_fails:
  assumes "exec_stmt s d = Inl e"
  shows "hoare (settled d) (db_execute f s) (\<lambda>_ _. False) (\<lambda>_. settled d)"
  by (rule hoare_exec) (use assms in \<open>auto simp: settled_def\<close>)

lemma settled_select:
  "hoare (settled d) (db_execute f SelectUserEmailColumn)
     (\<lambda>n w. settled d w \<and> n = probe_user_email d) (\<lambda>_. settled d)"
  by (rule hoare_exec) (auto simp: settled_def)

lemma settled_result:
  assumes "hoare (settled d) (try_block f) (\<lambda>_. settled d) (\<lambda>_. settled d)"
  shows "settled d (fst (migrateWorkspaceUserEmail f d))"
  by (rule hoare_result[OF assms]) (simp_all add: settled_def)

lemma clean_exec:
  assumes "has_user_id d" and "\<forall>r \<in> set (workspace_member d). user_id r \<noteq> None"
    and "exec_stmt s d = Inr (d', n)"
  shows "d' = d"
proof -
  from assms(2) have no: "\<forall>r \<in> set (workspace_member d). \<not> orphaned r"
    "filter (\<lambda>r. \<not> orphaned r) (workspace_member d) = workspace_member d"
    "filter (\<lambda>r. \<not> unidentified r) (workspace_member d) = workspace_member d"
    "filter (\<lambda>r. \<not> null_user_id r) (workspace_member d) = workspace_member d"
    by (auto simp: orphaned_def unidentified_def null_user_id_def filter_id_conv)
  show ?thesis
  proof (cases s)
    case UpdateUserId
    with assms(3) update_rows_no_orphans[OF no(1), of "user_table d"] show ?thesis
      by (auto split: option.splits)
  qed (use assms(1,3) no in \<open>auto simp: probe_user_id_def dest!: sql_count_Inr sql_delete_Inr\<close>)
qed

lemma settled_clean:
  assumes "has_user_id d" and "\<forall>r \<in> set (workspace_member d). user_id r \<noteq> None"
  shows "settled d (fst (migrateWorkspaceUserEmail f d))"
  by (rule settled_result, rule hoare_uniform, rule settled_exec, rule clean_exec[OF assms],
      assumption, rule settled_log)

lemma settled_no_columns:
  assumes "probe_user_email d = 0" and "\<not> has_user_id d"
  shows "settled d (fst (migrateWorkspaceUserEmail f d))"
proof -
  from assms(2) have "exec_stmt CountNullUserIds d = Inl (UndefinedColumn ''user_id'')"
    by (simp add: sql_count_def missing_column_def)
  then have sweep: "hoare (settled d) (remove_null_user_ids f) (\<lambda>_. settled d) (\<lambda>_. settled d)"
    unfolding remove_null_user_ids_def by (rule hoare_dead_end[OF settled_exec_fails])
  have branch: "hoare (\<lambda>w. settled d w \<and> n = probe_user_email d)
      (if 0 < n then legacy_branch f else skip) (\<lambda>_. settled d) (\<lambda>_. settled d)" for n :: nat
    using assms(1) by (cases "n = 0") (simp_all add: hoare_def skip_def)
  show ?thesis
    unfolding try_block_def
    by (rule settled_result, unfold try_block_def, rule hoare_and_then[OF settled_select],
        rule hoare_and_then[OF branch], rule hoare_and_then[OF sweep], rule settled_log)
qed

lemma settled_update_fails:
  assumes "0 < probe_user_email d" and "0 < probe_user_id d"
    and "exec_stmt UpdateUserId d = Inl e"
  shows "settled d (fst (migrateWorkspaceUserEmail f d))"
proof -
  from assms(2) have add: "\<And>d' n. exec_stmt AddUserIdColumn d = Inr (d', n) \<Longrightarrow> d' = d"
    by simp
  have legacy: "hoare (settled d) (legacy_branch f) (\<lambda>_ _. False) (\<lambda>_. settled d)"
    unfolding legacy_branch_def
    by (rule hoare_and_then[OF settled_log], rule hoare_and_then[OF settled_exec[OF add]],
        assumption, rule hoare_dead_end[OF settled_exec_fails[OF assms(3)]])
  have branch: "hoare (\<lambda>w. settled d w \<and> n = probe_user_email d)
      (if 0 < n then legacy_branch f else skip) (\<lambda>_ _. False) (\<lambda>_. settled d)" for n :: nat
  proof (cases "n = probe_user_email d")
    case True
    with assms(1) show ?thesis by (simp add: hoare_pre[OF legacy])
  next
    case False
    then show ?thesis by (simp add: hoare_def)
  qed
  show ?thesis
    by (rule settled_result, unfold try_block_def, rule hoare_and_then[OF settled_select],
        rule hoare_dead_end[OF branch])
qed

subsection \<open>Runs without external failures\<close>

lemma hoare_sweep:
  assumes "hoare A (db_execute f cnt) (\<lambda>_. A) E" and "hoare A (db_execute f del) (\<lambda>_. A) E"
    and "\<And>m. hoare A (console_log m) (\<lambda>_. A) E" and "hoare A fin (\<lambda>_. A) E"
  shows "hoare A (and_then (db_execute f cnt) (\<lambda>n.
       if count_positive n then
         and_then (console_log (mk n)) (\<lambda>_.
         and_then (db_execute f del) (\<lambda>_. fin))
       else skip)) (\<lambda>_. A) E"
  by (rule hoare_and_then[OF assms(1)], rule hoare_if, rule hoare_and_then[OF assms(3)],
      rule hoare_and_then[OF assms(2)], rule assms(4), rule hoare_skip)

lemma exec_update_flags:
  assumes "exec_stmt UpdateUserId d = Inr (d', n)"
  shows "has_user_id d' \<and> has_user_email d'"
proof -
  from exec_update_Inr[OF assms] have "has_user_id d" "has_user_email d"
    and "d' = d\<lparr>workspace_member := map (resolved (user_table d)) (workspace_member d)\<rparr>"
    by blast+
  then show ?thesis by simp
qed

lemma fault_free_failure:
  assumes run: "migrateWorkspaceUserEmail no_faults d = (w1, Inl e)"
  shows "(probe_user_email d = 0 \<and> \<not> has_user_id d \<and> db w1 = d) \<or>
         (0 < probe_user_email d \<and> db w1 = after_add d \<and>
          exec_stmt UpdateUserId (after_add d) = Inl e)"
proof -
  define F where "F = (\<lambda>(e::db_error) (w::world).
      (probe_user_email d = 0 \<and> \<not> has_user_id d \<and> db w = d) \<or>
      (0 < probe_user_email d \<and> db w = after_add d \<and>
       exec_stmt UpdateUserId (after_add d) = Inl e))"
  define A0 where "A0 = (\<lambda>w::world. db w = d)"
  define A2 where "A2 = (\<lambda>w::world. db w = after_add d)"
  define A3 where "A3 = (\<lambda>w::world. has_user_id (db w) \<and> has_user_email (db w))"
  define H where "H = (\<lambda>w::world. has_user_id (db w))"
  have nf: "no_faults s = None" for s by (simp add: no_faults_def)
  have log0: "hoare A0 (console_log m) (\<lambda>_. A0) F" for m
    by (rule hoare_log) (simp add: A0_def)
  have log3: "hoare A3 (console_log m) (\<lambda>_. A3) F" for m
    by (rule hoare_log) (simp add: A3_def)
  have logH: "hoare H (console_log m) (\<lambda>_. H) F" for m
    by (rule hoare_log) (simp add: H_def)
  have sel: "hoare A0 (db_execute no_faults SelectUserEmailColumn)
      (\<lambda>n w. A0 w \<and> n = probe_user_email d) F"
    by (rule hoare_exec) (auto simp: A0_def nf)
  have st3: "hoare A3 (db_execute no_faults s) (\<lambda>_. A3) F"
    if "s \<in> {CountOrphaned, DeleteOrphaned, CountNull, DeleteNull, CountNullUserIds, DeleteNullUserIds}"
    for s
    by (rule hoare_exec)
       (use that in \<open>auto simp: A3_def nf sql_count_def sql_delete_def missing_column_def\<close>)
  have skip3: "hoare A3 skip (\<lambda>_. A3) F" by (rule hoare_skip)
  have orph3: "hoare A3 (remove_orphaned no_faults) (\<lambda>_. A3) F"
    unfolding remove_orphaned_def by (rule hoare_sweep) (simp_all add: st3 log3 skip3)
  have null3: "hoare A3 (remove_null no_faults) (\<lambda>_. A3) F"
    unfolding remove_null_def by (rule hoare_sweep) (simp_all add: st3 log3 skip3)
  have last3: "hoare A3 (remove_null_user_ids no_faults) (\<lambda>_. A3) F"
    unfolding remove_null_user_ids_def by (rule hoare_sweep) (simp_all add: st3 log3)
  have init: "A0 \<lparr>db = d, events = [Log LogChecking]\<rparr>" by (simp add: A0_def)
  have "\<exists>w. F e w \<and> w1 = w\<lparr>events := events w @ [Log (LogError e)]\<rparr>"
  proof (cases "0 < probe_user_email d")
    case True
    have add: "hoare A0 (db_execute no_faults AddUserIdColumn) (\<lambda>_. A2) F"
      by (rule hoare_exec) (auto simp: A0_def A2_def nf after_add_def split: if_splits)
    have upd: "hoare A2 (db_execute no_faults UpdateUserId) (\<lambda>_. A3) F"
    proof (rule hoare_exec)
      fix w :: world and e
      assume "A2 w" and "no_faults UpdateUserId = Some e \<or>
        no_faults UpdateUserId = None \<and> exec_stmt UpdateUserId (db w) = Inl e"
      with True show "F e (w\<lparr>events := events w @ [Exec UpdateUserId (db w) (Inl e)]\<rparr>)"
        by (simp add: A2_def F_def nf)
    next
      fix w :: world and d' n
      assume "exec_stmt UpdateUserId (db w) = Inr (d', n)"
      from exec_update_flags[OF this]
      show "A3 (w\<lparr>db := d', events := events w @ [Exec UpdateUserId (db w) (Inr n)]\<rparr>)"
        by (simp add: A3_def)
    qed
    have legacy: "hoare A0 (legacy_branch no_faults) (\<lambda>_. A3) F"
      unfolding legacy_branch_def
      by (rule hoare_and_then[OF log0], rule hoare_and_then[OF add], rule hoare_and_then[OF upd],
          rule hoare_and_then[OF orph3], rule hoare_and_then[OF null3], rule log3)
    have branch: "hoare (\<lambda>w. A0 w \<and> n = probe_user_email d)
        (if 0 < n then legacy_branch no_faults else skip) (\<lambda>_. A3) F" for n :: nat
    proof (cases "n = probe_user_email d")
      case eq: True
      with True show ?thesis by (simp add: hoare_pre[OF legacy])
    next
      case False
      then show ?thesis by (simp add: hoare_def)
    qed
    have "hoare A0 (try_block no_faults) (\<lambda>_. A3) F"
      unfolding try_block_def
      by (rule hoare_and_then[OF sel], rule hoare_and_then[OF branch],
          rule hoare_and_then[OF last3], rule log3)
    from hoare_migrate[OF this init] run show ?thesis by simp
  next
    case False
    have branch: "hoare (\<lambda>w. A0 w \<and> n = probe_user_email d)
        (if 0 < n then legacy_branch no_faults else skip) (\<lambda>_. A0) F" for n :: nat
      using False by (cases "n = 0") (simp_all add: hoare_def skip_def)
    have cnt: "hoare A0 (db_execute no_faults CountNullUserIds) (\<lambda>_. H) F"
      by (rule hoare_exec)
         (use False in \<open>auto simp: A0_def H_def F_def nf sql_count_def missing_column_def
            split: if_splits\<close>)
    have del: "hoare H (db_execute no_faults DeleteNullUserIds) (\<lambda>_. H) F"
      by (rule hoare_exec) (auto simp: H_def nf sql_delete_def missing_column_def)
    have last: "hoare A0 (remove_null_user_ids no_faults) (\<lambda>_. H) F"
      unfolding remove_null_user_ids_def
      by (rule hoare_and_then[OF cnt], rule hoare_if, rule hoare_and_then[OF logH],
          rule hoare_and_then[OF del], rule logH, rule hoare_skip)
    have "hoare A0 (try_block no_faults) (\<lambda>_. H) F"
      unfolding try_block_def
      by (rule hoare_and_then[OF sel], rule hoare_and_then[OF branch],
          rule hoare_and_then[OF last], rule logH)
    from hoare_migrate[OF this init] run show ?thesis by simp
  qed
  then show ?thesis by (auto simp: F_def)
qed

lemma columns_kept:
  "has_user_email (db (fst (migrateWorkspaceUserEmail f d))) = has_user_email d \<and>
   other_user_email (db (fst (migrateWorkspaceUserEmail f d))) = other_user_email d"
proof -
  let ?I = "\<lambda>w::world. has_user_email (db w) = has_user_email d \<and>
      other_user_email (db w) = other_user_email d"
  have keep: "has_user_email d' = has_user_email d0 \<and> other_user_email d' = other_user_email d0"
    if "exec_stmt s d0 = Inr (d', n)" for s d0 d' n
  proof (cases s)
    case UpdateUserId
    with that exec_update_Inr[of d0 d' n] show ?thesis by simp
  qed (use that in \<open>auto simp: add_user_id_column_def dest!: sql_count_Inr sql_delete_Inr
        split: if_splits\<close>)
  have exec: "preserves ?I (db_execute f s)" for s
    unfolding preserves_def
  proof (intro allI impI)
    fix w :: world assume I: "?I w"
    show "?I (fst (db_execute f s w))"
    proof (cases "db_execute f s w")
      case (Pair w1 res)
      show ?thesis
      proof (cases res)
        case (Inl e)
        with Pair I show ?thesis
          by (auto simp: db_execute_def split: option.splits sum.splits prod.splits)
      next
        case (Inr n)
        with Pair have "exec_stmt s (db w) = Inr (db w1, n)" by (simp add: db_execute_Inr)
        from keep[OF this] I Pair show ?thesis by simp
      qed
    qed
  qed
  have log: "preserves ?I (console_log m)" for m
    by (simp add: preserves_def console_log_def)
  from migrate_invariant[of ?I f d, OF exec log] show ?thesis by simp
qed

lemma legacy_column_kept:
  "has_user_email (db (fst (migrateWorkspaceUserEmail f d))) = has_user_email d"
  using columns_kept[of f d] by simp

lemma probe_kept:
  "probe_user_email (db (fst (migrateWorkspaceUserEmail f d))) = probe_user_email d"
  using columns_kept[of f d] by (simp add: probe_user_email_def)

lemma run_success_clean:
  assumes "migrateWorkspaceUserEmail f d = (w', Inr u)"
  shows "has_user_id (db w') \<and> (\<forall>r \<in> set (workspace_member (db w')). user_id r \<noteq> None)"
proof (cases "0 < probe_user_email d")
  case True
  from migrate_probe_Inr(2,4)[OF assms True] show ?thesis
    by (simp add: after_null_simps after_null_rows)
next
  case False
  then have "probe_user_email d = 0" by simp
  from migrate_plain_Inr(1,2)[OF assms this] show ?thesis
    by (simp add: null_user_id_def)
qed

lemma run_success_probe:
  assumes "migrateWorkspaceUserEmail f d = (w', Inr u)" and "0 < probe_user_email (db w')"
  shows "has_user_email (db w')"
proof -
  from probe_kept[of f d] columns_kept[of f d] assms(1)
  have p: "probe_user_email (db w') = probe_user_email d"
    and c: "has_user_email (db w') = has_user_email d" by simp_all
  from assms(2) p have "0 < probe_user_email d" by simp
  from migrate_probe_Inr(5)[OF assms(1) this] c show ?thesis by simp
qed

lemma quiet_Exec:
  "quiet d (Exec s d0 out) \<longleftrightarrow> d0 = d \<and> (\<forall>n. out = Inr n \<longrightarrow> exec_stmt s d = Inr (d, n))"
  by (cases out) auto

lemma clean_update:
  assumes "has_user_id d" and "has_user_email d"
    and "\<forall>r \<in> set (workspace_member d). user_id r \<noteq> None"
  shows "\<exists>p. exec_stmt UpdateUserId d = Inr p"
proof -
  from assms(3) have "\<forall>r \<in> set (workspace_member d). \<not> orphaned r"
    by (simp add: orphaned_def)
  from update_rows_no_orphans[OF this, of "user_table d"] assms(1,2) show ?thesis
    by (simp add: missing_column_def)
qed

lemma update_rows_Inl:
  "update_rows us rs = Inl e \<Longrightarrow>
     \<exists>r \<in> set rs. orphaned r \<and> select_user_id us (user_email r) = Inl e"
  by (induction rs) (auto split: if_splits sum.splits)

lemma select_user_id_Inl:
  "select_user_id us em = Inl e \<Longrightarrow> 2 \<le> length (filter (\<lambda>u. u_email u = em) us)"
proof (cases em)
  case None
  assume "select_user_id us em = Inl e"
  with None show ?thesis by (simp add: select_user_id_def)
next
  case (Some x)
  assume "select_user_id us em = Inl e"
  with Some show ?thesis
    by (auto simp: select_user_id_def split: list.splits)
qed

text \<open>
  A run that meets no external failure returns without an error when the table has the
  columns the run comes to name (\<^verbatim>\<open>user_id\<close>, after the \<^verbatim>\<open>DO\<close> block, in any case, and
  \<^verbatim>\<open>user_email\<close> when the probe finds one) and no row's email is the email of two users.
\<close>

lemma fault_free_run_returns:
  assumes cols: "if 0 < probe_user_email d
                 then has_user_email d \<and> (has_user_id d \<or> other_user_id d = 0)
                 else has_user_id d"
    and uniq: "\<forall>r \<in> set (workspace_member d). user_email r \<noteq> None \<longrightarrow>
                 length (filter (\<lambda>u. u_email u = user_email r) (user_table d)) \<le> 1"
  shows "snd (migrateWorkspaceUserEmail no_faults d) = Inr ()"
proof (cases "snd (migrateWorkspaceUserEmail no_faults d)")
  case (Inl e)
  then have "migrateWorkspaceUserEmail no_faults d = (fst (migrateWorkspaceUserEmail no_faults d), Inl e)"
    by (simp add: prod_eq_iff)
  from fault_free_failure[OF this] cols
  have "0 < probe_user_email d" and x: "exec_stmt UpdateUserId (after_add d) = Inl e"
    by (auto split: if_splits)
  with cols have "has_user_email d" "has_user_id (after_add d)"
    by (simp_all add: after_add_has_user_id)
  with x have "update_rows (user_table d) (workspace_member (after_add d)) = Inl e"
    by (simp add: missing_column_def after_add_simps split: sum.splits)
  from update_rows_Inl[OF this] obtain r0 where r0: "r0 \<in> set (workspace_member (after_add d))"
    and o: "orphaned r0"
    and "select_user_id (user_table d) (user_email r0) = Inl e" by blast
  from select_user_id_Inl[OF this(3)]
  have two: "2 \<le> length (filter (\<lambda>u. u_email u = user_email r0) (user_table d))" .
  from after_add_email[OF r0] obtain r where "r \<in> set (workspace_member d)"
    and "user_email r0 = user_email r" by blast
  with uniq two o show ?thesis by (fastforce simp: orphaned_def)
qed simp

subsection \<open>Runs whose probe finds no legacy column\<close>

text \<open>
  When the probe finds no \<^verbatim>\<open>user_email\<close> column on any table named \<^verbatim>\<open>workspace_member\<close>, a
  run, failed or not, sends no statement other than the probe, the count of the null rows and
  the \<^verbatim>\<open>DELETE\<close> of the null rows; the database after the run is the one before it, or the one
  before it without the rows whose \<^verbatim>\<open>user_id\<close> is null.
\<close>

lemma empty_probe_only_final_sweep:
  assumes nocol: "probe_user_email d = 0"
  shows "(db (fst (migrateWorkspaceUserEmail faults d)) = d \<or>
          db (fst (migrateWorkspaceUserEmail faults d)) =
            d\<lparr>workspace_member := filter (\<lambda>r. user_id r \<noteq> None) (workspace_member d)\<rparr> \<and>
          (\<exists>n. Exec DeleteNullUserIds d (Inr n)
                 \<in> set (events (fst (migrateWorkspaceUserEmail faults d))))) \<and>
         (\<forall>s d0 out. Exec s d0 out \<in> set (events (fst (migrateWorkspaceUserEmail faults d))) \<longrightarrow>
            s = SelectUserEmailColumn \<or> s = CountNullUserIds \<or> s = DeleteNullUserIds)"
proof -
  define ok where "ok = (\<lambda>w::world. \<forall>s d0 out. Exec s d0 out \<in> set (events w) \<longrightarrow>
            s = SelectUserEmailColumn \<or> s = CountNullUserIds \<or> s = DeleteNullUserIds)"
  define B where "B = (\<lambda>w. db w = d \<and> ok w)"
  define J where "J = (\<lambda>w. (db w = d \<or>
      db w = d\<lparr>workspace_member := filter (\<lambda>r. user_id r \<noteq> None) (workspace_member d)\<rparr> \<and>
      (\<exists>n. Exec DeleteNullUserIds d (Inr n) \<in> set (events w))) \<and> ok w)"
  note defs = ok_def B_def J_def
  have sel: "hoare B (db_execute faults SelectUserEmailColumn) (\<lambda>n w. B w \<and> n = 0) (\<lambda>_. J)"
    by (rule hoare_exec) (use nocol in \<open>auto simp: defs\<close>)
  have cnt: "hoare B (db_execute faults CountNullUserIds) (\<lambda>_. B) (\<lambda>_. J)"
    by (rule hoare_exec) (auto dest: sql_count_Inr simp: defs)
  have del: "hoare B (db_execute faults DeleteNullUserIds) (\<lambda>_. J) (\<lambda>_. J)"
    by (rule hoare_exec) (auto dest!: sql_delete_Inr simp: null_user_id_def defs)
  have logB: "hoare B (console_log m) (\<lambda>_. B) (\<lambda>_. J)" for m
    by (rule hoare_log) (simp add: defs)
  have logJ: "hoare J (console_log m) (\<lambda>_. J) (\<lambda>_. J)" for m
    by (rule hoare_log) (auto simp: defs)
  have found: "hoare B (and_then (console_log (LogNullUserIds n)) (\<lambda>_.
         and_then (db_execute faults DeleteNullUserIds) (\<lambda>_.
         console_log LogRemoved))) (\<lambda>_. J) (\<lambda>_. J)" for n
    by (rule hoare_and_then[OF logB], rule hoare_and_then[OF del], rule logJ)
  have none: "hoare B skip (\<lambda>_. J) (\<lambda>_. J)"
    by (rule hoare_pre[OF hoare_skip]) (simp add: defs)
  have sweep: "hoare B (remove_null_user_ids faults) (\<lambda>_. J) (\<lambda>_. J)"
    unfolding remove_null_user_ids_def
    by (rule hoare_and_then[OF cnt], rule hoare_if[OF found none])
  have branch: "hoare (\<lambda>w. B w \<and> n = 0) (if 0 < n then legacy_branch faults else skip)
      (\<lambda>_. B) (\<lambda>_. J)" for n :: nat
    by (cases "n = 0") (simp_all add: hoare_def skip_def)
  have "hoare B (try_block faults) (\<lambda>_. J) (\<lambda>_. J)"
    unfolding try_block_def
    by (rule hoare_and_then[OF sel], rule hoare_and_then[OF branch],
        rule hoare_and_then[OF sweep], rule logJ)
  then have "J (fst (migrateWorkspaceUserEmail faults d))"
    by (rule hoare_result) (auto simp: defs)
  then show ?thesis unfolding defs .
qed

section \<open>Claims about the reconciliation routine\<close>

text \<open>
  C1. Whenever the routine returns without an error, the table has the \<^verbatim>\<open>user_id\<close> column
  and no row of \<^verbatim>\<open>workspace_member\<close> has a null \<^verbatim>\<open>user_id\<close>. This holds for every database
  state and every pattern of external failures, whether or not the legacy branch ran: the
  last statement the routine can run is the sweep of the null rows.
\<close>

theorem no_null_user_id_after_success:
  assumes "migrateWorkspaceUserEmail faults d = (w', Inr ())"
  shows "has_user_id (db w') \<and> (\<forall>r \<in> set (workspace_member (db w')). user_id r \<noteq> None)"
  using assms by (rule run_success_clean)

theorem no_null_user_id_after_success_witness:
  "snd (migrateWorkspaceUserEmail no_faults migrated_db) = Inr () \<and>
   has_user_id (db (fst (migrateWorkspaceUserEmail no_faults migrated_db))) \<and>
   workspace_member (db (fst (migrateWorkspaceUserEmail no_faults migrated_db))) = [m_bob] \<and>
   list_all (\<lambda>r. user_id r \<noteq> None)
     (workspace_member (db (fst (migrateWorkspaceUserEmail no_faults migrated_db))))"
proof -
  have res: "snd (migrateWorkspaceUserEmail no_faults migrated_db) = Inr ()"
    by (simp add: run_defs example_defs)
  then have run: "migrateWorkspaceUserEmail no_faults migrated_db =
     (fst (migrateWorkspaceUserEmail no_faults migrated_db), Inr ())"
    by (simp add: prod_eq_iff)
  have rows: "workspace_member (db (fst (migrateWorkspaceUserEmail no_faults migrated_db))) = [m_bob]"
    by (simp add: run_defs example_defs)
  from no_null_user_id_after_success[OF run] res rows show ?thesis
    by (simp add: list_all_iff)
qed

text \<open>
  C2. Run the routine, and then run it again on the database the first run left. When the
  first run returned without an error, or was not disturbed by external failures (so that it
  returned, or stopped at an error that the database state itself causes), the second run
  changes nothing, whatever external failures it meets: every statement it sends finds the
  database the first run left and leaves it as it is, so no column is added and no row is
  updated or deleted. The routine never drops \<^verbatim>\<open>user_email\<close>: the table has that column after
  a run exactly when it had it before. After a first run that returned without an error, the
  final count of the second run is zero, and a second run without external failures also
  returns without an error.
\<close>

theorem second_run_is_a_no_op:
  assumes first: "migrateWorkspaceUserEmail f1 d = (w1, r1)"
    and ok: "r1 = Inr () \<or> f1 = no_faults"
    and second: "migrateWorkspaceUserEmail f2 (db w1) = (w2, r2)"
  shows "db w2 = db w1 \<and>
         (\<forall>s d0 out. Exec s d0 out \<in> set (events w2) \<longrightarrow>
            d0 = db w1 \<and> (\<forall>n. out = Inr n \<longrightarrow> exec_stmt s d0 = Inr (d0, n))) \<and>
         has_user_email (db w1) = has_user_email d \<and>
         (r1 = Inr () \<longrightarrow>
            (\<forall>d0 n. Exec CountNullUserIds d0 (Inr n) \<in> set (events w2) \<longrightarrow> n = 0) \<and>
            (f2 = no_faults \<longrightarrow> r2 = Inr ()))"
proof -
  have "settled (db w1) (fst (migrateWorkspaceUserEmail f2 (db w1)))"
  proof (cases r1)
    case (Inr u)
    with first have "has_user_id (db w1)" "\<forall>r \<in> set (workspace_member (db w1)). user_id r \<noteq> None"
      by (auto dest: run_success_clean)
    then show ?thesis by (rule settled_clean)
  next
    case (Inl e)
    with ok first have "migrateWorkspaceUserEmail no_faults d = (w1, Inl e)" by simp
    from fault_free_failure[OF this] show ?thesis
    proof (elim disjE conjE)
      assume "probe_user_email d = 0" "\<not> has_user_id d" "db w1 = d"
      then show ?thesis by (simp add: settled_no_columns)
    next
      assume "0 < probe_user_email d" "db w1 = after_add d"
        "exec_stmt UpdateUserId (after_add d) = Inl e"
      then show ?thesis
        by (simp add: settled_update_fails[of "after_add d" e] after_add_simps)
    qed
  qed
  with second have same: "db w2 = db w1" and q: "\<forall>ev \<in> set (events w2). quiet (db w1) ev"
    by (simp_all add: settled_def)
  have stmts: "d0 = db w1 \<and> (\<forall>n. out = Inr n \<longrightarrow> exec_stmt s d0 = Inr (d0, n))"
    if "Exec s d0 out \<in> set (events w2)" for s d0 out
    using q that by (auto simp: quiet_Exec)
  from legacy_column_kept[of f1 d] first
  have kept: "has_user_email (db w1) = has_user_email d" by simp
  have after: "(\<forall>d0 n. Exec CountNullUserIds d0 (Inr n) \<in> set (events w2) \<longrightarrow> n = 0) \<and>
            (f2 = no_faults \<longrightarrow> r2 = Inr ())" if r1: "r1 = Inr ()"
  proof -
    from first r1 have id: "has_user_id (db w1)"
      and nn: "\<forall>r \<in> set (workspace_member (db w1)). user_id r \<noteq> None"
      by (auto dest: run_success_clean)
    have zero: "n = 0" if "Exec CountNullUserIds d0 (Inr n) \<in> set (events w2)" for d0 n
    proof -
      from stmts[OF that] have "sql_count False null_user_id (db w1) = Inr (db w1, n)" by auto
      from sql_count_Inr[OF this] nn show ?thesis
        by (simp add: null_user_id_def filter_empty_conv)
    qed
    have "r2 = Inr ()" if nofault: "f2 = no_faults"
    proof (cases r2)
      case (Inl e)
      with second nofault have "migrateWorkspaceUserEmail no_faults (db w1) = (w2, Inl e)" by simp
      from fault_free_failure[OF this] id
      have p: "0 < probe_user_email (db w1)"
        and "exec_stmt UpdateUserId (after_add (db w1)) = Inl e"
        by auto
      with id have x: "exec_stmt UpdateUserId (db w1) = Inl e"
        by (simp add: after_add_def probe_user_id_def)
      from first r1 p have em: "has_user_email (db w1)" by (auto dest: run_success_probe)
      from x clean_update[OF id em nn] show ?thesis by simp
    qed simp
    with zero show ?thesis by blast
  qed
  from same stmts kept after show ?thesis by blast
qed

theorem second_run_is_a_no_op_witness:
  "snd (migrateWorkspaceUserEmail no_faults (empty_email_db [nobody])) = Inr () \<and>
   db (fst (migrateWorkspaceUserEmail no_faults (empty_email_db [nobody]))) \<noteq>
     empty_email_db [nobody] \<and>
   db (fst (migrateWorkspaceUserEmail no_faults
        (db (fst (migrateWorkspaceUserEmail no_faults (empty_email_db [nobody])))))) =
     db (fst (migrateWorkspaceUserEmail no_faults (empty_email_db [nobody]))) \<and>
   snd (migrateWorkspaceUserEmail no_faults
        (db (fst (migrateWorkspaceUserEmail no_faults (empty_email_db [nobody]))))) = Inr ()"
proof -
  let ?first = "migrateWorkspaceUserEmail no_faults (empty_email_db [nobody])"
  let ?second = "migrateWorkspaceUserEmail no_faults (db (fst ?first))"
  have res: "snd ?first = Inr ()"
    by (simp add: run_defs example_defs)
  have changed: "db (fst ?first) \<noteq> empty_email_db [nobody]"
    by (simp add: run_defs example_defs)
  have first: "?first = (fst ?first, snd ?first)" by simp
  have second: "?second = (fst ?second, snd ?second)" by simp
  from res have ok: "snd ?first = Inr () \<or> no_faults = no_faults" by simp
  note t = second_run_is_a_no_op[OF first ok second]
  from t have same: "db (fst ?second) = db (fst ?first)" by (rule conjunct1)
  from t res have "snd ?second = Inr ()" by blast
  with res changed same show ?thesis by (intro conjI) assumption+
qed

text \<open>
  C3. Take a run through the legacy branch that returns without an error, and a row whose
  \<^verbatim>\<open>user_id\<close> is null before the run (or absent, when the column is only added by the run)
  and whose \<^verbatim>\<open>user_email\<close> is the email of a user \<open>u\<close>. Then the correlated lookup for that
  row yields the id of \<open>u\<close>, and the row, with \<^verbatim>\<open>user_id\<close> set to that id and nothing else
  changed, is in the table after the run: it is updated and not deleted.
\<close>

theorem matching_email_sets_user_id:
  assumes run: "migrateWorkspaceUserEmail faults d = (w', Inr ())"
    and legacy: "has_user_email d"
    and r: "r \<in> set (workspace_member d)"
    and null: "has_user_id d \<longrightarrow> user_id r = None"
    and email: "user_email r = Some e"
    and u: "u \<in> set (user_table d)" "u_email u = Some e"
  shows "select_user_id (user_table d) (user_email r) = Inr (Some (u_id u)) \<and>
         r\<lparr>user_id := Some (u_id u)\<rparr> \<in> set (workspace_member (db w'))"
proof -
  let ?r0 = "r\<lparr>user_id := None\<rparr>"
  note m = migrate_legacy_Inr[OF run legacy]
  from after_add_member[OF r null m(4)] have r0: "?r0 \<in> set (workspace_member (after_add d))" .
  from email have orph: "orphaned ?r0" by (simp add: orphaned_def)
  from update_rows_select[OF m(1) r0 orph] email
  obtain v where "select_user_id (user_table d) (Some e) = Inr v" by auto
  with select_user_id_found[OF this u] have sel: "select_user_id (user_table d) (Some e) = Inr (Some (u_id u))"
    by simp
  with orph email have "resolved (user_table d) ?r0 = r\<lparr>user_id := Some (u_id u)\<rparr>"
    by (simp add: resolved_def)
  with r0 have "r\<lparr>user_id := Some (u_id u)\<rparr> \<in> set (workspace_member (after_null d))"
    by (force simp: after_null_rows)
  with m(2) sel email show ?thesis by simp
qed

theorem matching_email_sets_user_id_witness:
  "snd (migrateWorkspaceUserEmail no_faults legacy_db) = Inr () \<and>
   has_user_email legacy_db \<and> m_alice \<in> set (workspace_member legacy_db) \<and>
   user_id m_alice = None \<and> user_email m_alice = Some ''alice@example.com'' \<and>
   alice \<in> set (user_table legacy_db) \<and> u_email alice = Some ''alice@example.com'' \<and>
   m_alice\<lparr>user_id := Some (u_id alice)\<rparr>
     \<in> set (workspace_member (db (fst (migrateWorkspaceUserEmail no_faults legacy_db))))"
proof -
  have n: "user_id m_alice = None" and e: "user_email m_alice = Some ''alice@example.com''"
    and u: "u_email alice = Some ''alice@example.com''"
    by (simp_all add: example_defs)
  from n have n': "has_user_id legacy_db \<longrightarrow> user_id m_alice = None" by simp
  from matching_email_sets_user_id[OF legacy_run legacy_db_facts(1,5) n' e legacy_db_facts(4) u]
  have "m_alice\<lparr>user_id := Some (u_id alice)\<rparr>
     \<in> set (workspace_member (db (fst (migrateWorkspaceUserEmail no_faults legacy_db))))"
    by (rule conjunct2)
  with legacy_res legacy_db_facts(1,5,4) n e u show ?thesis by (intro conjI) assumption+
qed

text \<open>
  C4. Take a run through the legacy branch that returns without an error, and a row whose
  \<^verbatim>\<open>user_id\<close> is null before the run (or absent) and whose non-null \<^verbatim>\<open>user_email\<close> is the email
  of no user. Then the row, still with a null \<^verbatim>\<open>user_id\<close>, is in the table the first
  \<^verbatim>\<open>DELETE\<close> is sent to; the count \<open>n\<close> of such rows is positive and is written to the console
  immediately before that \<^verbatim>\<open>DELETE\<close>, which removes the row. When row identities are
  distinct, no row with its identity is left after the run.
\<close>

theorem unmatched_email_row_deleted:
  assumes run: "migrateWorkspaceUserEmail faults d = (w', Inr ())"
    and legacy: "has_user_email d"
    and r: "r \<in> set (workspace_member d)"
    and null: "has_user_id d \<longrightarrow> user_id r = None"
    and email: "user_email r = Some e"
    and nomatch: "\<forall>u \<in> set (user_table d). u_email u \<noteq> Some e"
  shows "(\<exists>pre post d3 d4 n.
            events w' = pre @ [Log (LogOrphaned n), Exec DeleteOrphaned d3 (Inr n)] @ post \<and>
            0 < n \<and> n = length (filter orphaned (workspace_member d3)) \<and>
            r\<lparr>user_id := None\<rparr> \<in> set (workspace_member d3) \<and>
            exec_stmt DeleteOrphaned d3 = Inr (d4, n) \<and>
            r\<lparr>user_id := None\<rparr> \<notin> set (workspace_member d4)) \<and>
         (distinct (map row_id (workspace_member d)) \<longrightarrow>
            row_id r \<notin> row_id ` set (workspace_member (db w')))"
proof -
  let ?r0 = "r\<lparr>user_id := None\<rparr>"
  let ?n = "length (filter orphaned (workspace_member (after_update d)))"
  note m = migrate_legacy_Inr[OF run legacy]
  from after_add_member[OF r null m(4)] have r0: "?r0 \<in> set (workspace_member (after_add d))" .
  from email have orph: "orphaned ?r0" by (simp add: orphaned_def)
  from select_user_id_none[OF nomatch] email orph
  have res: "resolved (user_table d) ?r0 = ?r0" by (simp add: resolved_def)
  with r0 have r3: "?r0 \<in> set (workspace_member (after_update d))"
    by (force simp: after_update_def)
  from r3 orph have pos: "0 < ?n" by (rule filter_length_pos)
  from orph have gone: "?r0 \<notin> set (workspace_member (after_orphaned d))"
    by (simp add: after_orphaned_def)
  from m(3) pos have ev: "events w' =
      [Log LogChecking, Exec SelectUserEmailColumn d (Inr (probe_user_email d)), Log LogFoundColumn,
       Exec AddUserIdColumn d (Inr (if 0 < probe_user_id d then 0 else 1)),
       Exec UpdateUserId (after_add d) (Inr (length (filter orphaned (workspace_member (after_add d))))),
       Exec CountOrphaned (after_update d) (Inr ?n)] @
      [Log (LogOrphaned ?n), Exec DeleteOrphaned (after_update d) (Inr ?n)] @
      (sweep_events CountNull DeleteNull LogNullRecords unidentified (after_orphaned d) @
       [Log LogMigrated, Exec CountNullUserIds (after_null d) (Inr 0), Log LogCompleted])"
    by (simp add: legacy_events_def sweep_events_def)
  from ev pos r3 gone exec_delete_orphaned[OF legacy m(4)]
  have first: "\<exists>pre post d3 d4 n.
            events w' = pre @ [Log (LogOrphaned n), Exec DeleteOrphaned d3 (Inr n)] @ post \<and>
            0 < n \<and> n = length (filter orphaned (workspace_member d3)) \<and>
            ?r0 \<in> set (workspace_member d3) \<and>
            exec_stmt DeleteOrphaned d3 = Inr (d4, n) \<and>
            ?r0 \<notin> set (workspace_member d4)"
    by blast
  from res orph have "user_id (resolved (user_table d) ?r0) = None" by simp
  from deleted_row_id[OF r null this _ m(4)] m(2)
  have "distinct (map row_id (workspace_member d)) \<longrightarrow>
            row_id r \<notin> row_id ` set (workspace_member (db w'))" by simp
  with first show ?thesis by blast
qed

theorem unmatched_email_row_deleted_witness:
  "snd (migrateWorkspaceUserEmail no_faults legacy_db) = Inr () \<and>
   has_user_email legacy_db \<and> m_ghost \<in> set (workspace_member legacy_db) \<and>
   user_id m_ghost = None \<and> user_email m_ghost = Some ''ghost@example.com'' \<and>
   list_all (\<lambda>u. u_email u \<noteq> Some ''ghost@example.com'') (user_table legacy_db) \<and>
   distinct (map row_id (workspace_member legacy_db)) \<and>
   row_id m_ghost \<notin> row_id ` set (workspace_member (db (fst (migrateWorkspaceUserEmail no_faults legacy_db))))"
proof -
  have n: "user_id m_ghost = None" and e: "user_email m_ghost = Some ''ghost@example.com''"
    and u: "list_all (\<lambda>u. u_email u \<noteq> Some ''ghost@example.com'') (user_table legacy_db)"
    by (simp_all add: example_defs)
  from n have n': "has_user_id legacy_db \<longrightarrow> user_id m_ghost = None" by simp
  from u have u': "\<forall>u \<in> set (user_table legacy_db). u_email u \<noteq> Some ''ghost@example.com''"
    by (simp add: list_all_iff)
  from unmatched_email_row_deleted[OF legacy_run legacy_db_facts(1,6) n' e u']
  have "distinct (map row_id (workspace_member legacy_db)) \<longrightarrow>
      row_id m_ghost \<notin> row_id ` set (workspace_member (db (fst (migrateWorkspaceUserEmail no_faults legacy_db))))"
    by (rule conjunct2)
  from mp[OF this legacy_db_facts(3)] legacy_res legacy_db_facts(1,6,3) n e u show ?thesis
    by (intro conjI) assumption+
qed

text \<open>
  C5, as amended. Take a run through the legacy branch that returns without an error, and a
  row whose \<^verbatim>\<open>user_id\<close> is null before the run (or absent) and whose \<^verbatim>\<open>user_email\<close> is null.
  Then the row is in the table the second \<^verbatim>\<open>DELETE\<close> (step 5) is sent to; the count \<open>n\<close> of
  the rows that statement matches is positive and is written to the console immediately
  before it, and the statement removes the row. When row identities are distinct, no row
  with its identity is left after the run.
\<close>

theorem null_email_row_deleted:
  assumes run: "migrateWorkspaceUserEmail faults d = (w', Inr ())"
    and legacy: "has_user_email d"
    and r: "r \<in> set (workspace_member d)"
    and null: "has_user_id d \<longrightarrow> user_id r = None"
    and email: "user_email r = None"
  shows "(\<exists>pre post d4 d5 n.
            events w' = pre @ [Log (LogNullRecords n), Exec DeleteNull d4 (Inr n)] @ post \<and>
            0 < n \<and> n = length (filter unidentified (workspace_member d4)) \<and>
            r\<lparr>user_id := None\<rparr> \<in> set (workspace_member d4) \<and>
            exec_stmt DeleteNull d4 = Inr (d5, n) \<and>
            r\<lparr>user_id := None\<rparr> \<notin> set (workspace_member d5)) \<and>
         (distinct (map row_id (workspace_member d)) \<longrightarrow>
            row_id r \<notin> row_id ` set (workspace_member (db w')))"
proof -
  let ?r0 = "r\<lparr>user_id := None\<rparr>"
  let ?n = "length (filter unidentified (workspace_member (after_orphaned d)))"
  note m = migrate_legacy_Inr[OF run legacy]
  from after_add_member[OF r null m(4)] have r0: "?r0 \<in> set (workspace_member (after_add d))" .
  from email have norph: "\<not> orphaned ?r0" and unid: "unidentified ?r0"
    by (simp_all add: orphaned_def unidentified_def)
  from norph have res: "resolved (user_table d) ?r0 = ?r0" by (simp add: resolved_def)
  with r0 have "?r0 \<in> set (workspace_member (after_update d))"
    by (force simp: after_update_def)
  with norph have r4: "?r0 \<in> set (workspace_member (after_orphaned d))"
    by (simp add: after_orphaned_def)
  from r4 unid have pos: "0 < ?n" by (rule filter_length_pos)
  from unid have gone: "?r0 \<notin> set (workspace_member (after_null d))"
    by (simp add: after_null_def)
  from m(3) pos have ev: "events w' =
      ([Log LogChecking, Exec SelectUserEmailColumn d (Inr (probe_user_email d)), Log LogFoundColumn,
       Exec AddUserIdColumn d (Inr (if 0 < probe_user_id d then 0 else 1)),
       Exec UpdateUserId (after_add d) (Inr (length (filter orphaned (workspace_member (after_add d)))))] @
       sweep_events CountOrphaned DeleteOrphaned LogOrphaned orphaned (after_update d) @
       [Exec CountNull (after_orphaned d) (Inr ?n)]) @
      [Log (LogNullRecords ?n), Exec DeleteNull (after_orphaned d) (Inr ?n)] @
      [Log LogMigrated, Exec CountNullUserIds (after_null d) (Inr 0), Log LogCompleted]"
    by (simp add: legacy_events_def sweep_events_def)
  from ev pos r4 gone exec_delete_null[OF legacy m(4)]
  have first: "\<exists>pre post d4 d5 n.
            events w' = pre @ [Log (LogNullRecords n), Exec DeleteNull d4 (Inr n)] @ post \<and>
            0 < n \<and> n = length (filter unidentified (workspace_member d4)) \<and>
            ?r0 \<in> set (workspace_member d4) \<and>
            exec_stmt DeleteNull d4 = Inr (d5, n) \<and>
            ?r0 \<notin> set (workspace_member d5)"
    by blast
  from res have "user_id (resolved (user_table d) ?r0) = None" by simp
  from deleted_row_id[OF r null this _ m(4)] m(2)
  have "distinct (map row_id (workspace_member d)) \<longrightarrow>
            row_id r \<notin> row_id ` set (workspace_member (db w'))" by simp
  with first show ?thesis by blast
qed

theorem null_email_row_deleted_witness:
  "snd (migrateWorkspaceUserEmail no_faults legacy_db) = Inr () \<and>
   has_user_email legacy_db \<and> m_null \<in> set (workspace_member legacy_db) \<and>
   user_id m_null = None \<and> user_email m_null = None \<and>
   distinct (map row_id (workspace_member legacy_db)) \<and>
   row_id m_null \<notin> row_id ` set (workspace_member (db (fst (migrateWorkspaceUserEmail no_faults legacy_db))))"
proof -
  have n: "user_id m_null = None" and e: "user_email m_null = None"
    by (simp_all add: example_defs)
  from n have n': "has_user_id legacy_db \<longrightarrow> user_id m_null = None" by simp
  from null_email_row_deleted[OF legacy_run legacy_db_facts(1,7) n' e]
  have "distinct (map row_id (workspace_member legacy_db)) \<longrightarrow>
      row_id m_null \<notin> row_id ` set (workspace_member (db (fst (migrateWorkspaceUserEmail no_faults legacy_db))))"
    by (rule conjunct2)
  from mp[OF this legacy_db_facts(3)] legacy_res legacy_db_facts(1,7,3) n e show ?thesis
    by (intro conjI) assumption+
qed

text \<open>
  C5, as stated, fails for a row whose \<^verbatim>\<open>user_email\<close> is the empty string. The \<^verbatim>\<open>UPDATE\<close> and
  the first \<^verbatim>\<open>DELETE\<close> treat the empty string as any other non-null email. With no user of
  that email the row is counted and deleted at step 4, step 5 counts zero rows and sends no
  \<^verbatim>\<open>DELETE\<close>; with a user whose email is empty the row gets that user's id and is kept.
\<close>

theorem empty_email_row_not_deleted_at_step_5:
  "m_empty \<in> set (workspace_member (empty_email_db [])) \<and>
   user_id m_empty = None \<and> user_email m_empty = Some '''' \<and>
   migrateWorkspaceUserEmail no_faults (empty_email_db []) =
     (\<lparr>db = (empty_email_db [])\<lparr>workspace_member := []\<rparr>,
       events =
         [Log LogChecking,
          Exec SelectUserEmailColumn (empty_email_db []) (Inr 1),
          Log LogFoundColumn,
          Exec AddUserIdColumn (empty_email_db []) (Inr 0),
          Exec UpdateUserId (empty_email_db []) (Inr 1),
          Exec CountOrphaned (empty_email_db []) (Inr 1),
          Log (LogOrphaned 1),
          Exec DeleteOrphaned (empty_email_db []) (Inr 1),
          Exec CountNull ((empty_email_db [])\<lparr>workspace_member := []\<rparr>) (Inr 0),
          Log LogMigrated,
          Exec CountNullUserIds ((empty_email_db [])\<lparr>workspace_member := []\<rparr>) (Inr 0),
          Log LogCompleted]\<rparr>, Inr ()) \<and>
   m_empty \<in> set (workspace_member (empty_email_db [nobody])) \<and>
   snd (migrateWorkspaceUserEmail no_faults (empty_email_db [nobody])) = Inr () \<and>
   workspace_member (db (fst (migrateWorkspaceUserEmail no_faults (empty_email_db [nobody])))) =
     [m_empty\<lparr>user_id := Some ''u0''\<rparr>]"
  by (simp add: run_defs example_defs)

text \<open>
  C6. The claim does not hold of the code when another schema holds a table
  \<^verbatim>\<open>workspace_member\<close> that has a \<^verbatim>\<open>user_email\<close> column: the probe has no condition on
  \<^verbatim>\<open>table_schema\<close> and finds that column, so the routine enters the legacy branch although
  the table it acts on has no \<^verbatim>\<open>user_email\<close> column. On a table with neither column the
  \<^verbatim>\<open>DO\<close> block then adds \<^verbatim>\<open>user_id\<close>, the \<^verbatim>\<open>UPDATE\<close> is sent and raises, and the routine throws
  with the column added. On the migrated table no column is added, but the \<^verbatim>\<open>UPDATE\<close> is
  still sent and raises, and the routine throws before the final sweep: the row with a null
  \<^verbatim>\<open>user_id\<close> stays.
\<close>

theorem shadowed_table_enters_legacy_branch:
  "\<not> has_user_email shadowed_bare_db \<and> \<not> has_user_id shadowed_bare_db \<and>
   migrateWorkspaceUserEmail no_faults shadowed_bare_db =
     (\<lparr>db = shadowed_bare_db\<lparr>has_user_id := True\<rparr>,
       events =
         [Log LogChecking,
          Exec SelectUserEmailColumn shadowed_bare_db (Inr 1),
          Log LogFoundColumn,
          Exec AddUserIdColumn shadowed_bare_db (Inr 1),
          Exec UpdateUserId (shadowed_bare_db\<lparr>has_user_id := True\<rparr>)
            (Inl (UndefinedColumn ''user_email'')),
          Log (LogError (UndefinedColumn ''user_email''))]\<rparr>,
      Inl (UndefinedColumn ''user_email'')) \<and>
   \<not> has_user_email shadowed_migrated_db \<and>
   workspace_member shadowed_migrated_db = [m_null, m_bob] \<and> user_id m_null = None \<and>
   migrateWorkspaceUserEmail no_faults shadowed_migrated_db =
     (\<lparr>db = shadowed_migrated_db,
       events =
         [Log LogChecking,
          Exec SelectUserEmailColumn shadowed_migrated_db (Inr 1),
          Log LogFoundColumn,
          Exec AddUserIdColumn shadowed_migrated_db (Inr 0),
          Exec UpdateUserId shadowed_migrated_db (Inl (UndefinedColumn ''user_email'')),
          Log (LogError (UndefinedColumn ''user_email''))]\<rparr>,
      Inl (UndefinedColumn ''user_email''))"
  by (simp add: run_defs example_defs)

text \<open>
  C7. In every run: a statement that raises \<open>e\<close> is the last statement sent; the next and
  last event is the console line reporting \<open>e\<close>; the routine throws that same \<open>e\<close>; and the
  database is as that statement found it. Conversely the routine throws only what a statement
  raised. A statement that fails for an external reason raises exactly that error. No
  statement is sent twice in a run. On success the routine returns the unit value, that is,
  nothing.
\<close>

theorem errors_logged_and_rethrown:
  assumes run: "migrateWorkspaceUserEmail faults d = (w', res)"
  shows "(\<forall>s d0 e. Exec s d0 (Inl e) \<in> set (events w') \<longrightarrow>
            res = Inl e \<and> db w' = d0 \<and>
            (\<exists>evs. events w' = evs @ [Exec s d0 (Inl e), Log (LogError e)] \<and>
                   (\<forall>s' d' e'. Exec s' d' (Inl e') \<notin> set evs))) \<and>
         (\<forall>e. res = Inl e \<longrightarrow> (\<exists>s d0. Exec s d0 (Inl e) \<in> set (events w'))) \<and>
         (\<forall>s d0 out e. Exec s d0 out \<in> set (events w') \<longrightarrow> faults s = Some e \<longrightarrow> out = Inl e) \<and>
         distinct (stmts_of (events w'))"
proof -
  have first: "res = Inl e \<and> db w' = d0 \<and>
            (\<exists>evs. events w' = evs @ [Exec s d0 (Inl e), Log (LogError e)] \<and>
                   (\<forall>s' d' e'. Exec s' d' (Inl e') \<notin> set evs))"
    if ev: "Exec s d0 (Inl e) \<in> set (events w')" for s d0 e
  proof (cases res)
    case (Inr u)
    with run_orderly[of faults d] run have "\<forall>ev \<in> set (events w'). \<not> raised ev" by simp
    with ev have "\<not> raised (Exec s d0 (Inl e))" by blast
    then show ?thesis by simp
  next
    case (Inl e1)
    with run_orderly[of faults d] run obtain evs s1
      where evs: "events w' = evs @ [Exec s1 (db w') (Inl e1), Log (LogError e1)]"
        and clean: "\<forall>ev \<in> set evs. \<not> raised ev" by auto
    from clean have none: "\<forall>s' d' e'. Exec s' d' (Inl e') \<notin> set evs"
      by (auto simp: raised_iff)
    with ev evs have "s = s1 \<and> d0 = db w' \<and> e = e1" by auto
    with Inl evs none show ?thesis by blast
  qed
  have second: "\<exists>s d0. Exec s d0 (Inl e) \<in> set (events w')" if "res = Inl e" for e
  proof -
    from run_orderly[of faults d] run that obtain evs s
      where "events w' = evs @ [Exec s (db w') (Inl e), Log (LogError e)]" by auto
    then have "Exec s (db w') (Inl e) \<in> set (events w')" by simp
    then show ?thesis by blast
  qed
  have third: "out = Inl e" if "Exec s d0 out \<in> set (events w')" "faults s = Some e" for s d0 out e
    using run_faults[of faults d] run that by auto
  from run_no_retry[of faults d] run have "distinct (stmts_of (events w'))" by simp
  with first second third show ?thesis by blast
qed

theorem errors_logged_and_rethrown_witness:
  "snd (migrateWorkspaceUserEmail (connection_lost DeleteOrphaned) legacy_db) =
     Inl (ExternalError ''connection terminated'') \<and>
   connection_lost DeleteOrphaned DeleteOrphaned = Some (ExternalError ''connection terminated'') \<and>
   stmts_of (events (fst (migrateWorkspaceUserEmail (connection_lost DeleteOrphaned) legacy_db))) =
     [SelectUserEmailColumn, AddUserIdColumn, UpdateUserId, CountOrphaned, DeleteOrphaned] \<and>
   (\<exists>evs d0. events (fst (migrateWorkspaceUserEmail (connection_lost DeleteOrphaned) legacy_db)) =
      evs @ [Exec DeleteOrphaned d0 (Inl (ExternalError ''connection terminated'')),
             Log (LogError (ExternalError ''connection terminated''))] \<and>
      db (fst (migrateWorkspaceUserEmail (connection_lost DeleteOrphaned) legacy_db)) = d0)"
proof -
  let ?run = "migrateWorkspaceUserEmail (connection_lost DeleteOrphaned) legacy_db"
  let ?e = "ExternalError ''connection terminated''"
  have res: "snd ?run = Inl ?e"
    by (simp add: run_defs example_defs)
  have f: "connection_lost DeleteOrphaned DeleteOrphaned = Some ?e"
    by (simp add: connection_lost_def)
  have st: "stmts_of (events (fst ?run)) =
     [SelectUserEmailColumn, AddUserIdColumn, UpdateUserId, CountOrphaned, DeleteOrphaned]"
    by (simp add: run_defs example_defs)
  then have "DeleteOrphaned \<in> set (stmts_of (events (fst ?run)))" by simp
  then obtain d0 out where ev: "Exec DeleteOrphaned d0 out \<in> set (events (fst ?run))"
    by (auto simp: stmts_of_set)
  have run: "?run = (fst ?run, snd ?run)" by simp
  note t = errors_logged_and_rethrown[OF run]
  from t ev f have "out = Inl ?e" by blast
  with t ev have "db (fst ?run) = d0 \<and>
      (\<exists>evs. events (fst ?run) = evs @ [Exec DeleteOrphaned d0 (Inl ?e), Log (LogError ?e)] \<and>
             (\<forall>s' d' e'. Exec s' d' (Inl e') \<notin> set evs))" by blast
  then have "\<exists>evs d0. events (fst ?run) = evs @ [Exec DeleteOrphaned d0 (Inl ?e), Log (LogError ?e)] \<and>
      db (fst ?run) = d0" by blast
  with res f st show ?thesis by (intro conjI) assumption+
qed

text \<open>
  C10. When the table has the \<^verbatim>\<open>user_id\<close> column, the rows with a non-null \<^verbatim>\<open>user_id\<close> come
  through any run, failed or not, as they were: in the table after the run they appear
  unchanged, in their order and as many times as before. In particular each of them is
  still a row of the table.
\<close>

theorem rows_with_user_id_untouched:
  assumes "has_user_id d"
  shows "subseq (filter (\<lambda>r. user_id r \<noteq> None) (workspace_member d))
           (workspace_member (db (fst (migrateWorkspaceUserEmail faults d)))) \<and>
         (\<forall>r \<in> set (workspace_member d). user_id r \<noteq> None \<longrightarrow>
            r \<in> set (workspace_member (db (fst (migrateWorkspaceUserEmail faults d)))))"
proof -
  let ?xs = "filter (\<lambda>r. user_id r \<noteq> None) (workspace_member d)"
  let ?I = "\<lambda>w. has_user_id (db w) \<and> subseq ?xs (workspace_member (db w))"
  have exec: "preserves ?I (db_execute faults s)" for s
    unfolding preserves_def
  proof (intro allI impI)
    fix w :: world assume I: "?I w"
    show "?I (fst (db_execute faults s w))"
    proof (cases "db_execute faults s w")
      case (Pair w1 res)
      show ?thesis
      proof (cases res)
        case (Inl e)
        with Pair I show ?thesis
          by (auto simp: db_execute_def split: option.splits sum.splits prod.splits)
      next
        case (Inr n)
        with Pair have "exec_stmt s (db w) = Inr (db w1, n)" by (simp add: db_execute_Inr)
        from exec_stmt_keeps[OF this, of ?xs] I Pair show ?thesis by simp
      qed
    qed
  qed
  have log: "preserves ?I (console_log m)" for m
    by (simp add: preserves_def console_log_def)
  from migrate_invariant[of ?I faults d, OF exec log] assms
  have *: "subseq ?xs (workspace_member (db (fst (migrateWorkspaceUserEmail faults d))))"
    by simp
  have "r \<in> set (workspace_member (db (fst (migrateWorkspaceUserEmail faults d))))"
    if "r \<in> set (workspace_member d)" "user_id r \<noteq> None" for r
    using subseq_member[OF *, of r] that by simp
  with * show ?thesis by blast
qed

theorem rows_with_user_id_untouched_witness:
  "has_user_id legacy_db \<and> m_bob \<in> set (workspace_member legacy_db) \<and> user_id m_bob \<noteq> None \<and>
   m_bob \<in> set (workspace_member (db (fst (migrateWorkspaceUserEmail no_faults legacy_db)))) \<and>
   m_bob \<in> set (workspace_member (db (fst (migrateWorkspaceUserEmail (connection_lost DeleteNull) legacy_db))))"
proof -
  have n: "user_id m_bob \<noteq> None" by (simp add: m_bob_def)
  note t = rows_with_user_id_untouched[OF legacy_db_facts(2), THEN conjunct2, rule_format,
      OF legacy_db_facts(8) n]
  from t[of no_faults] t[of "connection_lost DeleteNull"] legacy_db_facts(2,8) n show ?thesis
    by (intro conjI) assumption+
qed

section \<open>Claims about the priority selector widget\<close>

text \<open>
  C8. For every task the widget renders the five options in their fixed order, with distinct
  values, and shows the checkmark on a button exactly when the button's value is the task's
  current priority. Selecting \<open>P\<close> calls the update once, with the task's attributes and
  \<^verbatim>\<open>priority\<close> replaced by \<open>P\<close>; when the update resolves the popover is closed and no
  notification is produced.
\<close>

theorem priority_selection:
  "map (\<lambda>b. (on_click b, button_label b)) (render_buttons t) =
     [(''no-priority'', ''No Priority''), (''low'', ''Low''), (''medium'', ''Medium''),
      (''high'', ''High''), (''urgent'', ''Urgent'')] \<and>
   (\<forall>b \<in> set (render_buttons t). check_shown b \<longleftrightarrow> on_click b = priority t) \<and>
   update_calls (handlePriorityChange updateTask t P st) = update_calls st @ [t\<lparr>priority := P\<rparr>] \<and>
   (updateTask (t\<lparr>priority := P\<rparr>) = Inr () \<longrightarrow>
      \<not> popover_open (handlePriorityChange updateTask t P st) \<and>
      toasts (handlePriorityChange updateTask t P st) = toasts st)"
proof -
  have "map (\<lambda>b. (on_click b, button_label b)) (render_buttons t) =
     [(''no-priority'', ''No Priority''), (''low'', ''Low''), (''medium'', ''Medium''),
      (''high'', ''High''), (''urgent'', ''Urgent'')]"
    by (simp add: render_buttons_def priorityOptions_def)
  moreover have "\<forall>b \<in> set (render_buttons t). check_shown b \<longleftrightarrow> on_click b = priority t"
    by (auto simp: render_buttons_def)
  moreover have "update_calls (handlePriorityChange updateTask t P st) =
      update_calls st @ [t\<lparr>priority := P\<rparr>]"
    by (simp add: handlePriorityChange_def Let_def split: sum.splits thrown.splits)
  moreover have "updateTask (t\<lparr>priority := P\<rparr>) = Inr () \<longrightarrow>
      \<not> popover_open (handlePriorityChange updateTask t P st) \<and>
      toasts (handlePriorityChange updateTask t P st) = toasts st"
    by (simp add: handlePriorityChange_def Let_def)
  ultimately show ?thesis by blast
qed

theorem priority_selection_witness:
  "map check_shown (render_buttons low_task) = [False, True, False, False, False] \<and>
   map on_click (filter check_shown (render_buttons low_task)) = [''low''] \<and>
   resolves (low_task\<lparr>priority := ''urgent''\<rparr>) = Inr () \<and>
   update_calls (handlePriorityChange resolves low_task ''urgent'' open_widget) =
     [low_task\<lparr>priority := ''urgent''\<rparr>] \<and>
   \<not> popover_open (handlePriorityChange resolves low_task ''urgent'' open_widget) \<and>
   toasts (handlePriorityChange resolves low_task ''urgent'' open_widget) = []"
proof -
  have r: "resolves (low_task\<lparr>priority := ''urgent''\<rparr>) = Inr ()"
    by (simp add: resolves_def)
  have c: "map check_shown (render_buttons low_task) = [False, True, False, False, False]"
    "map on_click (filter check_shown (render_buttons low_task)) = [''low'']"
    by (simp_all add: render_buttons_def priorityOptions_def low_task_def)
  have o: "update_calls open_widget = []" "toasts open_widget = []"
    by (simp_all add: open_widget_def)
  from priority_selection[where t = low_task and updateTask = resolves and P = "''urgent''"
      and st = open_widget] r c o
  show ?thesis by simp
qed

text \<open>
  C9. When the update rejects, the widget passes one message to the notification surface:
  the rejection's own message when it is an \<^verbatim>\<open>Error\<close> instance, and the fixed text
  \<^verbatim>\<open>Failed to update task priority\<close> otherwise. The popover's open state is what it was
  before the selection.
\<close>

theorem rejected_update_notifies:
  assumes "updateTask (t\<lparr>priority := P\<rparr>) = Inl x"
  shows "toasts (handlePriorityChange updateTask t P st) =
           toasts st @ [case x of ErrorInstance message \<Rightarrow> message
                        | OtherValue \<Rightarrow> ''Failed to update task priority''] \<and>
         popover_open (handlePriorityChange updateTask t P st) = popover_open st \<and>
         update_calls (handlePriorityChange updateTask t P st) = update_calls st @ [t\<lparr>priority := P\<rparr>]"
  using assms by (simp add: handlePriorityChange_def Let_def)

theorem rejected_update_notifies_witness:
  "rejects (ErrorInstance ''Network error'') (low_task\<lparr>priority := ''high''\<rparr>) =
     Inl (ErrorInstance ''Network error'') \<and>
   toasts (handlePriorityChange (rejects (ErrorInstance ''Network error'')) low_task ''high'' open_widget) =
     [''Network error''] \<and>
   popover_open (handlePriorityChange (rejects (ErrorInstance ''Network error'')) low_task ''high'' open_widget) \<and>
   rejects OtherValue (low_task\<lparr>priority := ''high''\<rparr>) = Inl OtherValue \<and>
   toasts (handlePriorityChange (rejects OtherValue) low_task ''high'' open_widget) =
     [''Failed to update task priority''] \<and>
   popover_open (handlePriorityChange (rejects OtherValue) low_task ''high'' open_widget)"
proof -
  have r: "rejects x (low_task\<lparr>priority := ''high''\<rparr>) = Inl x" for x
    by (simp add: rejects_def)
  have o: "popover_open open_widget" "toasts open_widget = []"
    by (simp_all add: open_widget_def)
  from rejected_update_notifies[where updateTask = "rejects (ErrorInstance ''Network error'')"
      and t = low_task and P = "''high''" and st = open_widget, OF r]
    rejected_update_notifies[where updateTask = "rejects OtherValue"
      and t = low_task and P = "''high''" and st = open_widget, OF r]
    r o
  show ?thesis by simp
qed

end
